theory Spec2Isabelle
  imports Main
begin

section \<open>Python strings\<close>

text \<open>
  A Python \<open>str\<close> is modelled as a \<open>string\<close> (a list of \<open>char\<close>); every
  \<open>char\<close> stands for one code point below 256.  The operations below are the
  \<open>str\<close> methods that \<open>habr.py\<close> calls.
\<close>

text \<open>\<open>c.isspace()\<close> for the code points below 256.\<close>

definition py_isspace :: "char \<Rightarrow> bool" where
  "py_isspace c \<longleftrightarrow>
     c \<in> set [CHR 0x09, CHR 0x0A, CHR 0x0B, CHR 0x0C, CHR 0x0D,
              CHR 0x1C, CHR 0x1D, CHR 0x1E, CHR 0x1F, CHR 0x20, CHR 0x85, CHR 0xA0]"

text \<open>\<open>s.lstrip(chars)\<close>, \<open>s.rstrip(chars)\<close>, \<open>s.strip(chars)\<close>, the set of
  characters given as a predicate.\<close>

definition lstrip_of :: "(char \<Rightarrow> bool) \<Rightarrow> string \<Rightarrow> string" where
  "lstrip_of P s = dropWhile P s"

definition rstrip_of :: "(char \<Rightarrow> bool) \<Rightarrow> string \<Rightarrow> string" where
  "rstrip_of P s = rev (dropWhile P (rev s))"

definition strip_of :: "(char \<Rightarrow> bool) \<Rightarrow> string \<Rightarrow> string" where
  "strip_of P s = rstrip_of P (lstrip_of P s)"

text \<open>\<open>s.strip()\<close>: whitespace removed at both ends.\<close>

definition strip :: "string \<Rightarrow> string" where
  "strip s = strip_of py_isspace s"

text \<open>\<open>s.split(sep)\<close> for a separator of one character: never empty, and
  \<open>"".split(sep) = [""]\<close>.\<close>

fun split_on :: "char \<Rightarrow> string \<Rightarrow> string list" where
  "split_on sep [] = [[]]"
| "split_on sep (c # cs) =
     (if c = sep then [] # split_on sep cs
      else (case split_on sep cs of
              [] \<Rightarrow> [[c]]
            | w # ws \<Rightarrow> (c # w) # ws))"

text \<open>\<open>sep.join(xs)\<close>.\<close>

fun join :: "string \<Rightarrow> string list \<Rightarrow> string" where
  "join sep [] = []"
| "join sep [x] = x"
| "join sep (x # y # ys) = x @ sep @ join sep (y # ys)"

text \<open>\<open>s.replace(c, new)\<close> for a pattern of one character.\<close>

definition replace_char :: "char \<Rightarrow> string \<Rightarrow> string \<Rightarrow> string" where
  "replace_char c new s = concat (map (\<lambda>x. if x = c then new else [x]) s)"

text \<open>\<open>s.endswith(c)\<close> for one character.\<close>

definition endswith :: "string \<Rightarrow> char \<Rightarrow> bool" where
  "endswith s c \<longleftrightarrow> s \<noteq> [] \<and> last s = c"

text \<open>The two halves of \<open>s.split(c, 1)\<close> when \<open>c\<close> occurs in \<open>s\<close>.\<close>

definition before_first :: "char \<Rightarrow> string \<Rightarrow> string" where
  "before_first c s = takeWhile (\<lambda>x. x \<noteq> c) s"

definition after_first :: "char \<Rightarrow> string \<Rightarrow> string" where
  "after_first c s = drop 1 (dropWhile (\<lambda>x. x \<noteq> c) s)"

section \<open>Parsed markup\<close>

text \<open>
  The tree that \<open>BeautifulSoup(html, "html.parser")\<close> builds.  A \<open>Tag\<close> has a
  name, its attributes (a dictionary from attribute names to strings, the first
  entry for a name counts) and its children.  A \<open>NavigableString\<close> is a piece of
  text that \<open>.text\<close> collects; an \<open>OtherString\<close> is a string that \<open>.text\<close>
  leaves out (a comment, a declaration, the body of a script).  The document itself
  is a \<open>Tag\<close> whose children are the top-level nodes.
\<close>

datatype node =
    Tag string "(string \<times> string) list" "node list"
  | NavigableString string
  | OtherString string

text \<open>\<open>tag.descendants\<close>: every node below \<open>tag\<close>, in document order.\<close>

fun descendants :: "node \<Rightarrow> node list" where
  "descendants (Tag n attrs cs) = concat (map (\<lambda>c. c # descendants c) cs)"
| "descendants (NavigableString s) = []"
| "descendants (OtherString s) = []"

text \<open>\<open>tag.text\<close>.\<close>

fun text_of :: "node \<Rightarrow> string" where
  "text_of (Tag n attrs cs) = concat (map text_of cs)"
| "text_of (NavigableString s) = s"
| "text_of (OtherString s) = []"

text \<open>\<open>tag.get(key)\<close>: \<open>None\<close> when the attribute is missing.\<close>

fun tag_get :: "node \<Rightarrow> string \<Rightarrow> string option" where
  "tag_get (Tag n attrs cs) key = map_of attrs key"
| "tag_get _ key = None"

text \<open>The value of \<open>class\<close> is kept by the parser as the list of its
  whitespace-separated tokens.\<close>

fun ws_tokens :: "string \<Rightarrow> string \<Rightarrow> string list" where
  "ws_tokens cur [] = (if cur = [] then [] else [cur])"
| "ws_tokens cur (c # cs) =
     (if py_isspace c
      then (if cur = [] then ws_tokens [] cs else cur # ws_tokens [] cs)
      else ws_tokens (cur @ [c]) cs)"

definition class_list :: "string \<Rightarrow> string list" where
  "class_list v = ws_tokens [] v"

text \<open>One attribute filter of \<open>find\<close> and \<open>find_all\<close>, a string \<open>want\<close> for the
  attribute \<open>key\<close>: a missing attribute matches only the empty string, \<open>class\<close>
  matches when one of its tokens or the tokens joined by single blanks equal
  \<open>want\<close>, any other attribute when its value equals \<open>want\<close>.\<close>

definition attr_matches :: "(string \<times> string) list \<Rightarrow> string \<times> string \<Rightarrow> bool" where
  "attr_matches attrs kw =
     (case map_of attrs (fst kw) of
        None \<Rightarrow> snd kw = []
      | Some v \<Rightarrow>
          if fst kw = ''class''
          then snd kw \<in> set (class_list v) \<or> join '' '' (class_list v) = snd kw
          else v = snd kw)"

fun tag_matches :: "string \<Rightarrow> (string \<times> string) list \<Rightarrow> node \<Rightarrow> bool" where
  "tag_matches name filters (Tag n attrs cs) \<longleftrightarrow> n = name \<and> list_all (attr_matches attrs) filters"
| "tag_matches name filters _ \<longleftrightarrow> False"

text \<open>\<open>tag.find_all(name, class_=..., attrs={...})\<close> and \<open>tag.find(...)\<close>; the
  filters are given as one list of pairs, \<open>class_\<close> under the key \<open>class\<close>.\<close>

definition find_all :: "node \<Rightarrow> string \<Rightarrow> (string \<times> string) list \<Rightarrow> node list" where
  "find_all root name filters = filter (tag_matches name filters) (descendants root)"

definition find :: "node \<Rightarrow> string \<Rightarrow> (string \<times> string) list \<Rightarrow> node option" where
  "find root name filters =
     (case find_all root name filters of [] \<Rightarrow> None | t # ts \<Rightarrow> Some t)"

section \<open>Dates and numbers\<close>

text \<open>The fields of a \<open>datetime\<close> that the program formats.\<close>

record datetime =
  year :: nat
  month :: nat
  day :: nat
  hour :: nat
  minute :: nat

text \<open>\<open>str(n)\<close> for a number that is not negative, and for an integer.\<close>

definition digit_char :: "nat \<Rightarrow> char" where
  "digit_char d = ''0123456789'' ! d"

function str_nat :: "nat \<Rightarrow> string" where
  "str_nat n = (if n < 10 then [digit_char n] else str_nat (n div 10) @ [digit_char (n mod 10)])"
  by pat_completeness auto
termination
  by (relation "measure (\<lambda>n. n)") auto

definition str_int :: "int \<Rightarrow> string" where
  "str_int i = (if i < 0 then ''-'' @ str_nat (nat (- i)) else str_nat (nat i))"

text \<open>The conversions \<open>%m\<close>, \<open>%d\<close>, \<open>%H\<close>, \<open>%M\<close> of \<open>strftime\<close> fill to two
  digits; \<open>%Y\<close> is the year as the C library prints it, four digits from the
  year 1000 on.\<close>

definition two_digits :: "nat \<Rightarrow> string" where
  "two_digits n = (if n < 10 then ''0'' @ str_nat n else str_nat n)"

text \<open>\<open>dt.strftime("%Y-%m-%d")\<close> and \<open>dt.strftime("%H:%M")\<close>.\<close>

definition strftime_Ymd :: "datetime \<Rightarrow> string" where
  "strftime_Ymd dt = str_nat (year dt) @ ''-'' @ two_digits (month dt) @ ''-'' @ two_digits (day dt)"

definition strftime_HM :: "datetime \<Rightarrow> string" where
  "strftime_HM dt = two_digits (hour dt) @ '':'' @ two_digits (minute dt)"

section \<open>The exceptions and the library\<close>

datatype exn = ValueError

text \<open>The exception with which \<open>BeautifulSoup(html, "html.parser")\<close> rejects
  markup: \<open>html.parser\<close> raises an \<open>AssertionError\<close> on a malformed declaration
  such as \<open><![foo bar]>\<close>, which \<open>bs4\<close> raises again as \<open>ParserRejectedMarkup\<close>.\<close>

datatype markup_exn = ParserRejectedMarkup

text \<open>
  The parts of the Python library whose results the program only passes on are
  parameters of the model, collected in one record:
  \<^item> \<open>check_bracketed_host h\<close>: \<open>urllib.parse._check_bracketed_host(h)\<close> returns
    (it validates an IP literal with \<open>ipaddress\<close>);
  \<^item> \<open>nfkc_netloc_ok n\<close>: the NFKC test of \<open>urllib.parse._checknetloc\<close> on a
    network location with a non-ASCII character passes;
  \<^item> \<open>BeautifulSoup html\<close>: the document parsed from the markup, or the exception
    with which the parser rejects the markup;
  \<^item> \<open>int_of_str s\<close>: \<open>int(s)\<close>, \<open>None\<close> when it raises;
  \<^item> \<open>fromisoformat s\<close>: \<open>datetime.fromisoformat(s)\<close>, \<open>None\<close> when it raises.
\<close>

record pylib =
  check_bracketed_host :: "string \<Rightarrow> bool"
  nfkc_netloc_ok :: "string \<Rightarrow> bool"
  BeautifulSoup :: "string \<Rightarrow> markup_exn + node"
  int_of_str :: "string \<Rightarrow> int option"
  fromisoformat :: "string \<Rightarrow> datetime option"

section \<open>\<open>urllib.parse\<close>: \<open>urlparse\<close> and \<open>urlunparse\<close> (CPython 3.11)\<close>

definition ascii_lowercase :: string where
  "ascii_lowercase = ''abcdefghijklmnopqrstuvwxyz''"

definition ascii_uppercase :: string where
  "ascii_uppercase = ''ABCDEFGHIJKLMNOPQRSTUVWXYZ''"

definition scheme_chars :: string where
  "scheme_chars = ascii_lowercase @ ascii_uppercase @ ''0123456789+-.''"

definition uses_params :: "string list" where
  "uses_params = ['''', ''ftp'', ''hdl'', ''prospero'', ''http'', ''imap'',
     ''https'', ''shttp'', ''rtsp'', ''rtsps'', ''rtspu'', ''sip'', ''sips'',
     ''mms'', ''sftp'', ''tel'']"

definition uses_netloc :: "string list" where
  "uses_netloc = ['''', ''ftp'', ''http'', ''gopher'', ''nntp'', ''telnet'',
     ''imap'', ''wais'', ''file'', ''mms'', ''https'', ''shttp'', ''snews'',
     ''prospero'', ''rtsp'', ''rtsps'', ''rtspu'', ''rsync'', ''svn'', ''svn+ssh'',
     ''sftp'', ''nfs'', ''git'', ''git+ssh'', ''ws'', ''wss'']"

text \<open>\<open>c.isascii() and c.isalpha()\<close>.\<close>

definition ascii_alpha :: "char \<Rightarrow> bool" where
  "ascii_alpha c \<longleftrightarrow> c \<in> set (ascii_lowercase @ ascii_uppercase)"

text \<open>\<open>c.isascii()\<close>.\<close>

definition isascii :: "char \<Rightarrow> bool" where
  "isascii c \<longleftrightarrow> (of_char c :: nat) < 128"

text \<open>\<open>s.lower()\<close>, on the characters a scheme is made of.\<close>

definition lower_char :: "char \<Rightarrow> char" where
  "lower_char c = (case map_of (zip ascii_uppercase ascii_lowercase) c of
                     Some l \<Rightarrow> l | None \<Rightarrow> c)"

definition lower :: "string \<Rightarrow> string" where
  "lower s = map lower_char s"

text \<open>\<open>_WHATWG_C0_CONTROL_OR_SPACE\<close>: the code points 0 to 32.\<close>

definition c0_control_or_space :: "char \<Rightarrow> bool" where
  "c0_control_or_space c \<longleftrightarrow> (of_char c :: nat) \<le> 32"

text \<open>\<open>_UNSAFE_URL_BYTES_TO_REMOVE\<close>: tab, carriage return, newline.\<close>

definition unsafe_url_byte :: "char \<Rightarrow> bool" where
  "unsafe_url_byte c \<longleftrightarrow> c \<in> set [CHR 0x09, CHR 0x0D, CHR 0x0A]"

text \<open>A \<open>ParseResult\<close>.\<close>

record parse_result =
  scheme :: string
  netloc :: string
  path :: string
  params :: string
  query :: string
  fragment :: string

text \<open>The test of \<open>urlsplit\<close> that the text before the first colon is a scheme:
  \<open>i = url.find(':')\<close>, \<open>i > 0\<close>, the first character an ASCII letter and every
  character of \<open>url[:i]\<close> in \<open>scheme_chars\<close>.\<close>

definition has_scheme :: "string \<Rightarrow> bool" where
  "has_scheme url \<longleftrightarrow>
     CHR '':'' \<in> set url \<and> before_first CHR '':'' url \<noteq> [] \<and> ascii_alpha (hd url) \<and>
     list_all (\<lambda>c. c \<in> set scheme_chars) (before_first CHR '':'' url)"

text \<open>\<open>_splitnetloc(url, 2)\<close> on a \<open>url\<close> that starts with two slashes: the
  network location runs to the first of \<open>/\<close>, \<open>?\<close>, \<open>#\<close>.\<close>

definition netloc_delim :: "char \<Rightarrow> bool" where
  "netloc_delim c \<longleftrightarrow> c \<in> set ''/?#''"

definition splitnetloc :: "string \<Rightarrow> string \<times> string" where
  "splitnetloc url =
     (takeWhile (\<lambda>c. \<not> netloc_delim c) (drop 2 url),
      dropWhile (\<lambda>c. \<not> netloc_delim c) (drop 2 url))"

text \<open>\<open>_checknetloc(netloc)\<close> returns.\<close>

definition checknetloc :: "pylib \<Rightarrow> string \<Rightarrow> bool" where
  "checknetloc L n \<longleftrightarrow> n = [] \<or> list_all isascii n \<or> nfkc_netloc_ok L n"

text \<open>The checks of \<open>urlsplit\<close> on the brackets of a network location pass.\<close>

definition brackets_ok :: "pylib \<Rightarrow> string \<Rightarrow> bool" where
  "brackets_ok L n \<longleftrightarrow>
     (if (CHR ''['' \<in> set n \<and> CHR '']'' \<notin> set n) \<or> (CHR '']'' \<in> set n \<and> CHR ''['' \<notin> set n)
      then False
      else if CHR ''['' \<in> set n \<and> CHR '']'' \<in> set n
      then check_bracketed_host L (before_first CHR '']'' (after_first CHR ''['' n))
      else True)"

text \<open>The end of \<open>urlsplit\<close>: fragment and query are split off, the network
  location is checked.\<close>

definition split_rest :: "pylib \<Rightarrow> string \<Rightarrow> string \<Rightarrow> string \<Rightarrow> exn + parse_result" where
  "split_rest L sch nl url =
     (let (url1, frag) = (if CHR ''#'' \<in> set url
                          then (before_first CHR ''#'' url, after_first CHR ''#'' url)
                          else (url, []));
          (url2, qry) = (if CHR ''?'' \<in> set url1
                         then (before_first CHR ''?'' url1, after_first CHR ''?'' url1)
                         else (url1, []))
      in if checknetloc L nl
         then Inr \<lparr>scheme = sch, netloc = nl, path = url2, params = [],
                   query = qry, fragment = frag\<rparr>
         else Inl ValueError)"

text \<open>\<open>urlsplit(url)\<close>; the \<open>params\<close> of the result are empty here and filled
  in by \<open>urlparse\<close>.\<close>

definition urlsplit :: "pylib \<Rightarrow> string \<Rightarrow> exn + parse_result" where
  "urlsplit L url0 =
     (let url1 = lstrip_of c0_control_or_space url0;
          url2 = filter (\<lambda>c. \<not> unsafe_url_byte c) url1;
          (sch, url3) = (if has_scheme url2
                         then (lower (before_first CHR '':'' url2), after_first CHR '':'' url2)
                         else ([], url2))
      in if take 2 url3 = ''//''
         then (let (nl, url4) = splitnetloc url3
               in if brackets_ok L nl then split_rest L sch nl url4 else Inl ValueError)
         else split_rest L sch [] url3)"

text \<open>\<open>_splitparams(url)\<close>, called when \<open>;\<close> occurs in \<open>url\<close>: the parameters
  start at the first \<open>;\<close> at or after the last \<open>/\<close>.\<close>

definition last_segment :: "string \<Rightarrow> string" where
  "last_segment url = rev (takeWhile (\<lambda>c. c \<noteq> CHR ''/'') (rev url))"

definition splitparams :: "string \<Rightarrow> string \<times> string" where
  "splitparams url =
     (if CHR ''/'' \<in> set url
      then (if CHR '';'' \<in> set (last_segment url)
            then (take (length url - length (last_segment url)) url
                    @ before_first CHR '';'' (last_segment url),
                  after_first CHR '';'' (last_segment url))
            else (url, []))
      else (before_first CHR '';'' url, after_first CHR '';'' url))"

definition urlparse :: "pylib \<Rightarrow> string \<Rightarrow> exn + parse_result" where
  "urlparse L url =
     (case urlsplit L url of
        Inl e \<Rightarrow> Inl e
      | Inr r \<Rightarrow>
          if scheme r \<in> set uses_params \<and> CHR '';'' \<in> set (path r)
          then (let (p, ps) = splitparams (path r) in Inr (r\<lparr>path := p, params := ps\<rparr>))
          else Inr (r\<lparr>params := []\<rparr>))"

definition urlunsplit :: "string \<Rightarrow> string \<Rightarrow> string \<Rightarrow> string \<Rightarrow> string \<Rightarrow> string" where
  "urlunsplit sch nl url qry frag =
     (let url1 = (if nl \<noteq> [] \<or> (sch \<noteq> [] \<and> sch \<in> set uses_netloc) \<or> take 2 url = ''//''
                  then ''//'' @ nl @ (if url \<noteq> [] \<and> take 1 url \<noteq> ''/'' then ''/'' @ url else url)
                  else url);
          url2 = (if sch \<noteq> [] then sch @ '':'' @ url1 else url1);
          url3 = (if qry \<noteq> [] then url2 @ ''?'' @ qry else url2)
      in if frag \<noteq> [] then url3 @ ''#'' @ frag else url3)"

definition urlunparse :: "parse_result \<Rightarrow> string" where
  "urlunparse r =
     urlunsplit (scheme r) (netloc r)
       (if params r \<noteq> [] then path r @ '';'' @ params r else path r)
       (query r) (fragment r)"

section \<open>The URL normaliser\<close>

text \<open>\<open>normalize_company_articles_url(raw_url)\<close>.  The \<open>ValueError\<close> of an empty
  link and the \<open>ValueError\<close> that \<open>urlparse\<close> raises both leave the function.\<close>

definition normalize_company_articles_url :: "pylib \<Rightarrow> string \<Rightarrow> exn + string" where
  "normalize_company_articles_url L raw_url =
     (if raw_url = [] then Inl ValueError
      else case urlparse L (strip raw_url) of
        Inl e \<Rightarrow> Inl e
      | Inr parsed \<Rightarrow>
         (let sch = (if scheme parsed \<noteq> [] then scheme parsed else ''https'');
              nl = (if netloc parsed \<noteq> [] then netloc parsed else ''habr.com'');
              path0 = (if path parsed \<noteq> [] then path parsed else ''/'');
              path1 = ''/'' @ join ''/'' (filter (\<lambda>p. p \<noteq> []) (split_on CHR ''/'' path0));
              parts = split_on CHR ''/'' (strip_of (\<lambda>c. c = CHR ''/'') path1);
              path2 = (if length parts \<ge> 3 \<and> parts ! 1 = ''companies''
                       then (if ''articles'' \<notin> set parts
                             then ''/'' @ join ''/'' (take 3 parts @ [''articles'']) @ ''/''
                             else (if \<not> endswith path1 CHR ''/'' then path1 @ ''/'' else path1))
                       else (if \<not> endswith path1 CHR ''/'' then path1 @ ''/'' else path1))
          in Inr (urlunparse \<lparr>scheme = sch, netloc = nl, path = path2, params = [],
                              query = [], fragment = []\<rparr>)))"

section \<open>The page fetcher\<close>

text \<open>
  What \<open>session.get(url)\<close> does is a parameter \<open>session\<close> of the model: the
  request raises, or it yields a response with a status and a body whose reading
  (\<open>await resp.text()\<close>) raises or returns.  Every exception here is an
  \<open>Exception\<close>.
\<close>

datatype fetch_exn = ClientConnectionError | TimeoutError | ClientResponseError nat | ClientPayloadError

record response =
  status :: nat
  body :: "fetch_exn + string"

type_synonym client_session = "string \<Rightarrow> fetch_exn + response"

text \<open>\<open>resp.raise_for_status()\<close>: raises for a status of 400 or more.\<close>

definition raise_for_status :: "response \<Rightarrow> fetch_exn + unit" where
  "raise_for_status resp =
     (if 400 \<le> status resp then Inl (ClientResponseError (status resp)) else Inr ())"

text \<open>The body of the \<open>try\<close> of \<open>fetch_html\<close>.\<close>

definition fetch_text :: "client_session \<Rightarrow> string \<Rightarrow> fetch_exn + string" where
  "fetch_text session url =
     (case session url of
        Inl e \<Rightarrow> Inl e
      | Inr resp \<Rightarrow>
          (case raise_for_status resp of
             Inl e \<Rightarrow> Inl e
           | Inr u \<Rightarrow> body resp))"

text \<open>\<open>fetch_html(session, url)\<close>: \<open>except Exception\<close> turns every exception into
  \<open>None\<close>.\<close>

definition fetch_html :: "client_session \<Rightarrow> string \<Rightarrow> string option" where
  "fetch_html session url =
     (case fetch_text session url of
        Inl e \<Rightarrow> None
      | Inr html \<Rightarrow> Some html)"

section \<open>The pagination detector\<close>

text \<open>\<open>parse_pagination_last_page(html)\<close>.  The document is built before the
  \<open>try\<close>, so an exception of the parser leaves the function; the \<open>try\<close> holds
  the conversion of the text of the last link alone.\<close>

definition parse_pagination_last_page :: "pylib \<Rightarrow> string \<Rightarrow> markup_exn + int" where
  "parse_pagination_last_page L html =
     (case BeautifulSoup L html of
        Inl e \<Rightarrow> Inl e
      | Inr soup \<Rightarrow>
          (case find soup ''div'' [(''class'', ''tm-pagination''), (''data-test-id'', ''pagination'')] of
             None \<Rightarrow> Inr 1
           | Some pagination_block \<Rightarrow>
               (let page_links = find_all pagination_block ''a'' [(''class'', ''tm-pagination__page'')]
                in if page_links = [] then Inr 1
                   else (case int_of_str L (strip (text_of (last page_links))) of
                           None \<Rightarrow> Inr 1
                         | Some n \<Rightarrow> Inr n))))"

section \<open>The record extractor\<close>

definition BASE_URL :: string where
  "BASE_URL = ''https://habr.com''"

definition format_number :: "string \<Rightarrow> string" where
  "format_number txt =
     (if txt = [] then ''N/A'' else replace_char (CHR 0xA0) '' '' (strip txt))"

text \<open>\<open>a or b\<close> on strings.\<close>

definition str_or :: "string \<Rightarrow> string \<Rightarrow> string" where
  "str_or a b = (if a \<noteq> [] then a else b)"

text \<open>The date and the time of \<open>parse_article_block\<close>, from the \<open>datetime\<close>
  attribute of the first \<open>time\<close> element.\<close>

definition date_time_of :: "pylib \<Rightarrow> node \<Rightarrow> string \<times> string" where
  "date_time_of L article_block =
     (case find article_block ''time'' [] of
        None \<Rightarrow> (''N/A'', ''N/A'')
      | Some time_element \<Rightarrow>
          (case tag_get time_element ''datetime'' of
             None \<Rightarrow> (''N/A'', ''N/A'')
           | Some v \<Rightarrow>
               if v = [] then (''N/A'', ''N/A'')
               else (let iso = strip v
                     in case fromisoformat L (replace_char CHR ''Z'' ''+00:00'' iso) of
                          Some dt \<Rightarrow> (strftime_Ymd dt, strftime_HM dt)
                        | None \<Rightarrow>
                            (take 10 iso,
                             (case split_on CHR ''T'' iso of
                                a # b # rest \<Rightarrow> take 5 b
                              | _ \<Rightarrow> ''N/A'')))))"

type_synonym article = "(string \<times> string) list"

definition parse_article_block :: "pylib \<Rightarrow> node \<Rightarrow> article" where
  "parse_article_block L article_block =
     (let title_element = find article_block ''h2''
            [(''class'', ''tm-title tm-title_h2''), (''data-test-id'', ''articleTitle'')];
          link_element = find article_block ''a''
            [(''class'', ''tm-title__link''), (''data-article-link'', ''true''),
             (''data-test-id'', ''article-snippet-title-link'')];
          title = (case title_element of
                     None \<Rightarrow> ''N/A''
                   | Some te \<Rightarrow> (case find te ''span'' [] of
                                   None \<Rightarrow> ''N/A''
                                 | Some sp \<Rightarrow> strip (text_of sp)));
          url = (case link_element of
                   None \<Rightarrow> ''N/A''
                 | Some le \<Rightarrow> (case tag_get le ''href'' of
                                 None \<Rightarrow> ''N/A''
                               | Some href \<Rightarrow> if href = [] then ''N/A'' else BASE_URL @ href));
          author_name =
            (case find article_block ''span''
                    [(''class'', ''tm-user-info__user''), (''data-test-id'', ''user-info-description'')] of
               None \<Rightarrow> ''N/A''
             | Some author_element \<Rightarrow>
                 (case find author_element ''a'' [(''class'', ''tm-user-info__username'')] of
                    None \<Rightarrow> ''N/A''
                  | Some a_user \<Rightarrow> strip (text_of a_user)));
          (date_str, time_str) = date_time_of L article_block;
          views_value =
            (case find article_block ''span'' [(''class'', ''tm-icon-counter tm-data-icons__item'')] of
               None \<Rightarrow> ''N/A''
             | Some views_parent_span \<Rightarrow>
                 (case find views_parent_span ''span'' [(''class'', ''tm-icon-counter__value'')] of
                    None \<Rightarrow> ''N/A''
                  | Some vv \<Rightarrow>
                      format_number
                        (str_or (case tag_get vv ''title'' of None \<Rightarrow> [] | Some t \<Rightarrow> t) (text_of vv))));
          votes_value =
            (case find article_block ''div'' [(''class'', ''tm-votes-meter tm-data-icons__item'')] of
               None \<Rightarrow> ''N/A''
             | Some votes_element \<Rightarrow>
                 (case find votes_element ''span''
                         [(''class'', ''tm-votes-meter__value''), (''data-test-id'', ''votes-meter-value'')] of
                    None \<Rightarrow> ''N/A''
                  | Some vm \<Rightarrow> if text_of vm \<noteq> [] then strip (text_of vm) else ''N/A''));
          comments_value =
            (case find article_block ''div''
                    [(''class'', ''article-comments-counter-link-wrapper tm-data-icons__item'')] of
               None \<Rightarrow> ''N/A''
             | Some comments_wrapper \<Rightarrow>
                 (case find comments_wrapper ''span'' [(''class'', ''value'')] of
                    None \<Rightarrow> ''N/A''
                  | Some span_val \<Rightarrow>
                      if text_of span_val \<noteq> [] then strip (text_of span_val) else ''N/A''));
          bookmarks_value =
            (case find article_block ''button'' [(''class'', ''bookmarks-button tm-data-icons__item'')] of
               None \<Rightarrow> ''N/A''
             | Some bookmarks_button \<Rightarrow>
                 (case find bookmarks_button ''span'' [(''class'', ''bookmarks-button__counter'')] of
                    None \<Rightarrow> ''N/A''
                  | Some counter_span \<Rightarrow>
                      (let text_val = (if text_of counter_span \<noteq> []
                                       then strip (text_of counter_span) else []);
                           title_val = strip (str_or (case tag_get counter_span ''title'' of
                                                        None \<Rightarrow> [] | Some t \<Rightarrow> t) [])
                       in format_number (str_or text_val title_val))))
      in [(''url'', url), (''title'', title), (''author'', author_name),
          (''date'', date_str), (''time'', time_str), (''votes'', votes_value),
          (''comments'', comments_value), (''bookmarks'', bookmarks_value),
          (''views'', views_value)])"

text \<open>The loop of \<open>parse_articles_list\<close>: a block whose parser raises is left out
  (\<open>except Exception\<close>), a block whose parser returns is appended to \<open>results\<close>.\<close>

fun parse_blocks :: "(node \<Rightarrow> 'e + article) \<Rightarrow> node list \<Rightarrow> article list \<Rightarrow> article list" where
  "parse_blocks parse [] results = results"
| "parse_blocks parse (block # blocks) results =
     (case parse block of
        Inr row \<Rightarrow> parse_blocks parse blocks (results @ [row])
      | Inl e \<Rightarrow> parse_blocks parse blocks results)"

text \<open>\<open>parse_articles_list(html)\<close> for any parser of one block, which returns or
  raises; the program's own parser is \<open>parse_article_block\<close>, which returns.  The
  document is built before the loop and outside its \<open>try\<close>, so an exception of
  the parser of the markup leaves the function.\<close>

definition parse_articles_list_with ::
  "(node \<Rightarrow> 'e + article) \<Rightarrow> pylib \<Rightarrow> string \<Rightarrow> markup_exn + article list" where
  "parse_articles_list_with parse L html =
     (case BeautifulSoup L html of
        Inl e \<Rightarrow> Inl e
      | Inr soup \<Rightarrow>
          (let article_blocks = find_all soup ''article'' [(''class'', ''tm-articles-list__item'')]
           in Inr (parse_blocks parse article_blocks [])))"

definition parse_articles_list :: "pylib \<Rightarrow> string \<Rightarrow> markup_exn + article list" where
  "parse_articles_list L html =
     parse_articles_list_with (\<lambda>block. (Inr (parse_article_block L block) :: exn + article)) L html"

section \<open>The scrape orchestrator\<close>

text \<open>The loop over \<open>pages_html\<close>: a page that is \<open>None\<close> or empty adds nothing;
  an exception of \<open>parse_articles_list\<close> ends the loop and leaves it.\<close>

fun extend_rows ::
  "pylib \<Rightarrow> article list \<Rightarrow> string option list \<Rightarrow> markup_exn + article list" where
  "extend_rows L rows [] = Inr rows"
| "extend_rows L rows (html # pages_html) =
     (case html of
        None \<Rightarrow> extend_rows L rows pages_html
      | Some h \<Rightarrow>
          if h = [] then extend_rows L rows pages_html
          else (case parse_articles_list L h of
                  Inl e \<Rightarrow> Inl e
                | Inr new_rows \<Rightarrow> extend_rows L (rows @ new_rows) pages_html))"

text \<open>\<open>scrape_company_articles(articles_url, request_timeout)\<close>.  When it returns,
  the result is the list of rows together with the URLs requested, in the order
  in which the requests were made; \<open>asyncio.gather\<close> returns the results in the
  order of its arguments.  Nothing in the function catches an exception of the
  parser of the markup.\<close>

definition scrape_company_articles ::
  "pylib \<Rightarrow> client_session \<Rightarrow> string \<Rightarrow> markup_exn + article list \<times> string list" where
  "scrape_company_articles L session articles_url =
     (case fetch_html session articles_url of
        None \<Rightarrow> Inr ([], [articles_url])
      | Some first_page_html \<Rightarrow>
          if first_page_html = [] then Inr ([], [articles_url])
          else (case parse_pagination_last_page L first_page_html of
                  Inl e \<Rightarrow> Inl e
                | Inr last_page \<Rightarrow>
                   (case parse_articles_list L first_page_html of
                      Inl e \<Rightarrow> Inl e
                    | Inr rows \<Rightarrow>
                        if last_page > 1
                        then (let urls = map (\<lambda>page_num. articles_url @ ''page'' @ str_int page_num @ ''/'')
                                             [2..last_page];
                                  pages_html = map (fetch_html session) urls
                              in case extend_rows L rows pages_html of
                                   Inl e \<Rightarrow> Inl e
                                 | Inr all_rows \<Rightarrow> Inr (all_rows, articles_url # urls))
                        else Inr (rows, [articles_url]))))"

section \<open>A listing of three pages\<close>

text \<open>
  One instance of the library and of the network, for the worked examples: a
  company whose listing has three pages, the second of which times out.  The
  markup of the pages is kept short; the table of \<open>example_lib\<close> gives the tree
  the parser builds for each.
\<close>

definition article_one :: node where
  "article_one =
     Tag ''article'' [(''class'', ''tm-articles-list__item'')]
       [Tag ''h2'' [(''class'', ''tm-title tm-title_h2''), (''data-test-id'', ''articleTitle'')]
          [Tag ''a'' [(''href'', ''/ru/companies/acme/articles/1/''),
                      (''class'', ''tm-title__link''), (''data-article-link'', ''true''),
                      (''data-test-id'', ''article-snippet-title-link'')]
             [Tag ''span'' [] [NavigableString ''First'']]],
        Tag ''time'' [(''datetime'', ''2024-03-05T14:30:00Z'')] []]"

definition article_three :: node where
  "article_three =
     Tag ''article'' [(''class'', ''tm-articles-list__item'')]
       [Tag ''time'' [(''datetime'', ''Txx'')] []]"

definition pagination_three :: node where
  "pagination_three =
     Tag ''div'' [(''class'', ''tm-pagination''), (''data-test-id'', ''pagination'')]
       [Tag ''a'' [(''class'', ''tm-pagination__page'')] [NavigableString ''1''],
        Tag ''a'' [(''class'', ''tm-pagination__page'')] [NavigableString ''2''],
        Tag ''a'' [(''class'', ''tm-pagination__page'')] [NavigableString '' 3 '']]"

definition page_one_html :: string where
  "page_one_html = ''<article>1</article><div>1 2 3</div>''"

definition page_three_html :: string where
  "page_three_html = ''<article>3</article>''"

text \<open>Three more pages: one whose pagination block has no page links, one whose
  last page link is not a number, and one with a block without a title between
  two blocks with one.\<close>

definition page_no_links_html :: string where
  "page_no_links_html = ''<div></div>''"

definition page_bad_link_html :: string where
  "page_bad_link_html = ''<div>next</div>''"

definition page_mixed_html :: string where
  "page_mixed_html = ''<article>1</article><article>3</article><article>1</article>''"

text \<open>Markup that the parser rejects.\<close>

definition rejected_html :: string where
  "rejected_html = ''<![foo bar]>''"

definition pagination_empty :: node where
  "pagination_empty =
     Tag ''div'' [(''class'', ''tm-pagination''), (''data-test-id'', ''pagination'')] []"

definition pagination_next :: node where
  "pagination_next =
     Tag ''div'' [(''class'', ''tm-pagination''), (''data-test-id'', ''pagination'')]
       [Tag ''a'' [(''class'', ''tm-pagination__page'')] [NavigableString ''next'']]"

definition example_soup :: "string \<Rightarrow> markup_exn + node" where
  "example_soup html =
     (if html = rejected_html then Inl ParserRejectedMarkup
      else if html = page_one_html then Inr (Tag ''[document]'' [] [article_one, pagination_three])
      else if html = page_three_html then Inr (Tag ''[document]'' [] [article_three])
      else if html = page_no_links_html then Inr (Tag ''[document]'' [] [pagination_empty])
      else if html = page_bad_link_html then Inr (Tag ''[document]'' [] [pagination_next])
      else if html = page_mixed_html
      then Inr (Tag ''[document]'' [] [article_one, article_three, article_one])
      else Inr (Tag ''[document]'' [] []))"

definition example_lib :: pylib where
  "example_lib =
     \<lparr>check_bracketed_host = (\<lambda>h. h = ''::1''),
      nfkc_netloc_ok = (\<lambda>n. True),
      BeautifulSoup = example_soup,
      int_of_str = map_of [(''1'', 1), (''2'', 2), (''3'', 3)],
      fromisoformat = map_of [(''2024-03-05T14:30:00+00:00'',
                               \<lparr>year = 2024, month = 3, day = 5, hour = 14, minute = 30\<rparr>)]\<rparr>"

definition example_url :: string where
  "example_url = ''https://habr.com/ru/companies/acme/articles/''"

definition example_session :: client_session where
  "example_session url =
     (if url = example_url then Inr \<lparr>status = 200, body = Inr page_one_html\<rparr>
      else if url = example_url @ ''page3/'' then Inr \<lparr>status = 200, body = Inr page_three_html\<rparr>
      else Inl TimeoutError)"

text \<open>A server that answers every request with status 300 (Multiple Choices)
  and a body, one that answers with status 404, and a parser of one block that
  raises on a block without a heading.\<close>

definition multiple_choices_session :: client_session where
  "multiple_choices_session url = Inr \<lparr>status = 300, body = Inr page_one_html\<rparr>"

definition not_found_session :: client_session where
  "not_found_session url = Inr \<lparr>status = 404, body = Inr page_one_html\<rparr>"


section \<open>Properties of the URL normaliser\<close>

subsection \<open>Character classes\<close>

lemma scheme_char_cases:
  assumes "c \<in> set scheme_chars"
  shows "lower_char c \<in> set scheme_chars" and "lower_char (lower_char c) = lower_char c"
    and "c \<noteq> CHR '':''" and "\<not> unsafe_url_byte c" and "\<not> c0_control_or_space c"
    and "\<not> py_isspace c" and "ascii_alpha c \<Longrightarrow> ascii_alpha (lower_char c)"
  using assms
  by (auto simp: scheme_chars_def ascii_lowercase_def ascii_uppercase_def lower_char_def
      unsafe_url_byte_def c0_control_or_space_def py_isspace_def ascii_alpha_def)

lemma ascii_alpha_scheme_char: "ascii_alpha c \<Longrightarrow> c \<in> set scheme_chars"
  by (auto simp: ascii_alpha_def scheme_chars_def)

subsection \<open>Splitting and joining\<close>

lemma split_on_not_Nil: "split_on c s \<noteq> []"
  by (induction s) (auto split: list.splits)

lemma split_on_no_sep: "c \<notin> set s \<Longrightarrow> split_on c s = [s]"
  by (induction s) auto

lemma split_on_append_sep: "c \<notin> set s \<Longrightarrow> split_on c (s @ c # t) = s # split_on c t"
  by (induction s) (auto simp: split_on_not_Nil split: list.splits)

lemma split_on_elem: "s \<in> set (split_on c t) \<Longrightarrow> c \<notin> set s \<and> set s \<subseteq> set t"
proof (induction t arbitrary: s)
  case Nil
  then show ?case by simp
next
  case (Cons x t)
  show ?case
  proof (cases "x = c")
    case True
    with Cons show ?thesis by auto
  next
    case False
    obtain w ws where ws: "split_on c t = w # ws"
      using split_on_not_Nil [of c t] by (cases "split_on c t") auto
    with False Cons.prems have "s = x # w \<or> s \<in> set ws" by auto
    moreover have "c \<notin> set w \<and> set w \<subseteq> set t" using Cons.IH [of w] ws by simp
    moreover have "s \<in> set ws \<Longrightarrow> c \<notin> set s \<and> set s \<subseteq> set t" using Cons.IH [of s] ws by simp
    ultimately show ?thesis using False by auto
  qed
qed

text \<open>Every segment followed by a slash.\<close>

definition slashed :: "string list \<Rightarrow> string" where
  "slashed segs = concat (map (\<lambda>s. s @ ''/'') segs)"

text \<open>Path segments: none empty, none with a slash.\<close>

definition segs_ok :: "string list \<Rightarrow> bool" where
  "segs_ok segs \<longleftrightarrow> list_all (\<lambda>s. s \<noteq> [] \<and> CHR ''/'' \<notin> set s) segs"

lemma split_on_slashed:
  "segs_ok segs \<Longrightarrow> split_on CHR ''/'' (slashed segs) = segs @ [[]]"
  by (induction segs) (auto simp: slashed_def segs_ok_def split_on_append_sep)

lemma filter_split_slashed:
  assumes "segs_ok segs"
  shows "filter (\<lambda>p. p \<noteq> []) (split_on CHR ''/'' (CHR ''/'' # slashed segs)) = segs"
proof -
  have "filter (\<lambda>p. p \<noteq> []) segs = segs"
    using assms by (induction segs) (auto simp: segs_ok_def)
  then show ?thesis using assms by (simp add: split_on_slashed)
qed

lemma join_slashed: "segs \<noteq> [] \<Longrightarrow> join ''/'' segs @ ''/'' = slashed segs"
  by (induction "''/''" segs rule: join.induct) (auto simp: slashed_def)

lemma split_on_join:
  "segs_ok segs \<Longrightarrow> segs \<noteq> [] \<Longrightarrow> split_on CHR ''/'' (join ''/'' segs) = segs"
  by (induction "''/''" segs rule: join.induct)
     (auto simp: segs_ok_def split_on_no_sep split_on_append_sep)

lemma ends_not_sep: "s \<noteq> [] \<Longrightarrow> c \<notin> set s \<Longrightarrow> hd s \<noteq> c \<and> last s \<noteq> c"
  by (metis hd_in_set last_in_set)

lemma join_ends:
  "segs_ok segs \<Longrightarrow> segs \<noteq> [] \<Longrightarrow>
     join ''/'' segs \<noteq> [] \<and> hd (join ''/'' segs) \<noteq> CHR ''/'' \<and> last (join ''/'' segs) \<noteq> CHR ''/''"
proof (induction "''/''" segs rule: join.induct)
  case 1
  then show ?case by simp
next
  case (2 x)
  then show ?case using ends_not_sep [of x "CHR ''/''"] by (simp add: segs_ok_def)
next
  case (3 x y ys)
  then show ?case using ends_not_sep [of x "CHR ''/''"] by (simp add: segs_ok_def)
qed

lemma lstrip_of_id: "s \<noteq> [] \<Longrightarrow> \<not> P (hd s) \<Longrightarrow> lstrip_of P s = s"
  by (cases s) (auto simp: lstrip_of_def)

lemma rstrip_of_id: "s \<noteq> [] \<Longrightarrow> \<not> P (last s) \<Longrightarrow> rstrip_of P s = s"
  by (cases s rule: rev_cases) (auto simp: rstrip_of_def)

lemma strip_of_id: "s \<noteq> [] \<Longrightarrow> \<not> P (hd s) \<Longrightarrow> \<not> P (last s) \<Longrightarrow> strip_of P s = s"
  by (simp add: strip_of_def lstrip_of_id rstrip_of_id)

lemma strip_slash_join:
  assumes "segs_ok segs" "segs \<noteq> []"
  shows "strip_of (\<lambda>c. c = CHR ''/'') (CHR ''/'' # join ''/'' segs) = join ''/'' segs"
proof -
  have "lstrip_of (\<lambda>c. c = CHR ''/'') (CHR ''/'' # join ''/'' segs)
        = lstrip_of (\<lambda>c. c = CHR ''/'') (join ''/'' segs)"
    by (simp add: lstrip_of_def)
  then show ?thesis
    using join_ends [OF assms] by (simp add: strip_of_def lstrip_of_id rstrip_of_id)
qed

text \<open>The segments of the normalised path: a company path without an
  \<open>articles\<close> segment is cut after the slug and gets one.\<close>

definition norm_segs :: "string list \<Rightarrow> string list" where
  "norm_segs segs =
     (if length segs \<ge> 3 \<and> segs ! 1 = ''companies'' \<and> ''articles'' \<notin> set segs
      then take 3 segs @ [''articles''] else segs)"

lemma norm_segs_idem: "norm_segs (norm_segs segs) = norm_segs segs"
  by (simp add: norm_segs_def)

lemma segs_ok_norm: "segs_ok segs \<Longrightarrow> segs_ok (norm_segs segs)"
  by (auto simp: norm_segs_def segs_ok_def list_all_iff dest: in_set_takeD)

text \<open>The path the normaliser builds from the segments.\<close>

lemma path_of_segs:
  assumes ok: "segs_ok segs"
  defines "path1 \<equiv> ''/'' @ join ''/'' segs"
  defines "parts \<equiv> split_on CHR ''/'' (strip_of (\<lambda>c. c = CHR ''/'') path1)"
  shows "(if length parts \<ge> 3 \<and> parts ! 1 = ''companies''
          then (if ''articles'' \<notin> set parts
                then ''/'' @ join ''/'' (take 3 parts @ [''articles'']) @ ''/''
                else (if \<not> endswith path1 CHR ''/'' then path1 @ ''/'' else path1))
          else (if \<not> endswith path1 CHR ''/'' then path1 @ ''/'' else path1))
         = CHR ''/'' # slashed (norm_segs segs)"
proof (cases "segs = []")
  case True
  then show ?thesis
    by (simp add: path1_def parts_def strip_of_def lstrip_of_def rstrip_of_def endswith_def
        norm_segs_def slashed_def)
next
  case False
  have parts: "parts = segs"
    using ok False by (simp add: parts_def path1_def strip_slash_join split_on_join)
  have e: "\<not> endswith path1 CHR ''/''"
    using join_ends [OF ok False] by (simp add: path1_def endswith_def)
  have p1: "path1 @ ''/'' = CHR ''/'' # slashed segs"
    using join_slashed [OF False] by (simp add: path1_def)
  have j: "join ''/'' (take 3 segs @ [''articles'']) @ ''/'' = slashed (take 3 segs @ [''articles''])"
    by (rule join_slashed) simp
  show ?thesis
    unfolding parts using e p1 j by (simp add: norm_segs_def)
qed

subsection \<open>Parsing an address that the normaliser built\<close>

text \<open>What a scheme, a network location and a path that \<open>urlparse\<close> returned
  satisfy, and what makes \<open>urlparse\<close> return them again.\<close>

definition good_scheme :: "string \<Rightarrow> bool" where
  "good_scheme sch \<longleftrightarrow>
     sch \<noteq> [] \<and> ascii_alpha (hd sch) \<and> list_all (\<lambda>c. c \<in> set scheme_chars) sch \<and> lower sch = sch"

definition good_netloc :: "pylib \<Rightarrow> string \<Rightarrow> bool" where
  "good_netloc L nl \<longleftrightarrow>
     list_all (\<lambda>c. \<not> netloc_delim c \<and> \<not> unsafe_url_byte c) nl \<and> brackets_ok L nl \<and> checknetloc L nl"

definition path_char :: "char \<Rightarrow> bool" where
  "path_char c \<longleftrightarrow> c \<noteq> CHR ''?'' \<and> c \<noteq> CHR ''#'' \<and> \<not> unsafe_url_byte c"

definition good_path :: "string \<Rightarrow> bool" where
  "good_path p \<longleftrightarrow> p \<noteq> [] \<and> hd p = CHR ''/'' \<and> last p = CHR ''/'' \<and> list_all path_char p"

lemma before_first_append:
  "c \<notin> set s \<Longrightarrow> before_first c (s @ c # t) = s"
  by (induction s) (auto simp: before_first_def)

lemma after_first_append:
  "c \<notin> set s \<Longrightarrow> after_first c (s @ c # t) = t"
  by (induction s) (auto simp: after_first_def)

lemma urlsplit_canon:
  assumes sch: "good_scheme sch" and nl: "good_netloc L nl" and p: "good_path p"
  shows "urlsplit L (sch @ ''://'' @ nl @ p) =
         Inr \<lparr>scheme = sch, netloc = nl, path = p, params = [], query = [], fragment = []\<rparr>"
proof -
  define v where "v = ''//'' @ nl @ p"
  define u where "u = sch @ CHR '':'' # v"
  have sne: "sch \<noteq> []" and alpha: "ascii_alpha (hd sch)"
    and schars: "\<And>c. c \<in> set sch \<Longrightarrow> c \<in> set scheme_chars" and low: "lower sch = sch"
    using sch by (auto simp: good_scheme_def list_all_iff)
  have nolon: "CHR '':'' \<notin> set sch" using schars scheme_char_cases(3) by blast
  have hdu: "hd u = hd sch" and une: "u \<noteq> []" using sne by (simp_all add: u_def)
  have "\<not> c0_control_or_space (hd sch)"
    using alpha ascii_alpha_scheme_char scheme_char_cases(5) by blast
  then have 1: "lstrip_of c0_control_or_space u = u"
    using une hdu by (intro lstrip_of_id) auto
  have "\<And>c. c \<in> set u \<Longrightarrow> \<not> unsafe_url_byte c"
    using schars scheme_char_cases(4) nl p
    by (auto simp: u_def v_def good_netloc_def good_path_def path_char_def list_all_iff
        unsafe_url_byte_def)
  then have 2: "filter (\<lambda>c. \<not> unsafe_url_byte c) u = u"
    by (intro filter_True) blast
  have bf: "before_first CHR '':'' u = sch"
    unfolding u_def by (rule before_first_append [OF nolon])
  have af: "after_first CHR '':'' u = v"
    unfolding u_def by (rule after_first_append [OF nolon])
  have 3: "has_scheme u"
    unfolding has_scheme_def bf using sne alpha schars hdu
    by (auto simp: list_all_iff u_def)
  obtain q where q: "p = CHR ''/'' # q" using p by (cases p) (auto simp: good_path_def)
  have nd: "\<And>c. c \<in> set nl \<Longrightarrow> \<not> netloc_delim c"
    using nl by (auto simp: good_netloc_def list_all_iff)
  have t2: "take 2 v = ''//''" by (simp add: v_def)
  have "takeWhile (\<lambda>c. \<not> netloc_delim c) (nl @ p) = nl"
    and "dropWhile (\<lambda>c. \<not> netloc_delim c) (nl @ p) = p"
    using nd by (induction nl) (auto simp: q netloc_delim_def)
  then have 4: "splitnetloc v = (nl, p)"
    by (simp add: splitnetloc_def v_def)
  have 5: "CHR ''#'' \<notin> set p" "CHR ''?'' \<notin> set p"
    using p by (auto simp: good_path_def path_char_def list_all_iff)
  have 6: "split_rest L sch nl p =
       Inr \<lparr>scheme = sch, netloc = nl, path = p, params = [], query = [], fragment = []\<rparr>"
    using 5 nl by (simp add: split_rest_def good_netloc_def)
  have 7: "brackets_ok L nl" using nl by (simp add: good_netloc_def)
  have "urlsplit L u =
         Inr \<lparr>scheme = sch, netloc = nl, path = p, params = [], query = [], fragment = []\<rparr>"
    unfolding urlsplit_def by (simp add: Let_def 1 2 3 bf af low t2 4 6 7)
  then show ?thesis by (simp add: u_def v_def)
qed

lemma last_segment_slash: "p \<noteq> [] \<Longrightarrow> last p = CHR ''/'' \<Longrightarrow> last_segment p = []"
  by (cases p rule: rev_cases) (auto simp: last_segment_def)

lemma urlparse_canon:
  assumes sch: "good_scheme sch" and nl: "good_netloc L nl" and p: "good_path p"
  shows "urlparse L (sch @ ''://'' @ nl @ p) =
         Inr \<lparr>scheme = sch, netloc = nl, path = p, params = [], query = [], fragment = []\<rparr>"
proof -
  have "CHR ''/'' \<in> set p" using p last_in_set [of p] by (auto simp: good_path_def)
  then have "splitparams p = (p, [])"
    using p by (simp add: splitparams_def good_path_def last_segment_slash)
  then show ?thesis
    unfolding urlparse_def urlsplit_canon [OF assms] by simp
qed

lemma after_first_subset: "set (after_first c s) \<subseteq> set s"
  unfolding after_first_def using set_drop_subset set_dropWhileD by fastforce

lemma before_first_subset: "set (before_first c s) \<subseteq> set s"
  unfolding before_first_def using set_takeWhileD by fastforce

lemma before_first_notin: "c \<notin> set (before_first c s)"
  unfolding before_first_def using set_takeWhileD by fastforce

lemma split_rest_props:
  assumes "split_rest L sch nl url = Inr r"
  shows "scheme r = sch" "netloc r = nl" "checknetloc L nl" "set (path r) \<subseteq> set url"
    "CHR ''?'' \<notin> set (path r)" "CHR ''#'' \<notin> set (path r)"
proof -
  define url1 where "url1 = (if CHR ''#'' \<in> set url then before_first CHR ''#'' url else url)"
  define url2 where "url2 = (if CHR ''?'' \<in> set url1 then before_first CHR ''?'' url1 else url1)"
  have r: "checknetloc L nl \<and> scheme r = sch \<and> netloc r = nl \<and> path r = url2"
    using assms
    by (auto simp: split_rest_def url1_def url2_def Let_def split: if_splits)
  have 1: "set url1 \<subseteq> set url" "CHR ''#'' \<notin> set url1"
    using before_first_subset [of "CHR ''#''" url] before_first_notin [of "CHR ''#''" url]
    by (auto simp: url1_def)
  have 2: "set url2 \<subseteq> set url1" "CHR ''?'' \<notin> set url2"
    using before_first_subset [of "CHR ''?''" url1] before_first_notin [of "CHR ''?''" url1]
    by (auto simp: url2_def)
  show "scheme r = sch" "netloc r = nl" "checknetloc L nl" using r by simp_all
  show "set (path r) \<subseteq> set url" using r 1 2 by auto
  show "CHR ''?'' \<notin> set (path r)" using r 2 by simp
  show "CHR ''#'' \<notin> set (path r)" using r 1 2 by auto
qed

lemma good_scheme_lower:
  assumes "has_scheme u"
  shows "good_scheme (lower (before_first CHR '':'' u))"
proof -
  define x where "x = before_first CHR '':'' u"
  have xne: "x \<noteq> []" and al: "ascii_alpha (hd u)"
    and all: "\<And>c. c \<in> set x \<Longrightarrow> c \<in> set scheme_chars"
    using assms by (auto simp: has_scheme_def x_def list_all_iff)
  have "hd x = hd u"
    using xne unfolding x_def before_first_def by (cases u) (auto split: if_splits)
  then have "ascii_alpha (hd (lower x))"
    using xne al ascii_alpha_scheme_char [of "hd u"] scheme_char_cases(7) [of "hd u"]
    by (simp add: lower_def hd_map)
  moreover have "list_all (\<lambda>c. c \<in> set scheme_chars) (lower x)"
    using all scheme_char_cases(1) by (auto simp: lower_def list_all_iff)
  moreover have "lower (lower x) = lower x"
    using all scheme_char_cases(2) by (simp add: lower_def)
  ultimately show ?thesis
    using xne by (simp add: good_scheme_def x_def lower_def)
qed

lemma brackets_ok_Nil: "brackets_ok L []"
  by (simp add: brackets_ok_def)

lemma urlsplit_props:
  assumes "urlsplit L s = Inr r"
  shows "scheme r = [] \<or> good_scheme (scheme r)" "good_netloc L (netloc r)"
    "list_all path_char (path r)"
proof -
  define url2 where
    "url2 = filter (\<lambda>c. \<not> unsafe_url_byte c) (lstrip_of c0_control_or_space s)"
  define sch where "sch = (if has_scheme url2 then lower (before_first CHR '':'' url2) else [])"
  define url3 where "url3 = (if has_scheme url2 then after_first CHR '':'' url2 else url2)"
  define nl where "nl = (if take 2 url3 = ''//'' then fst (splitnetloc url3) else [])"
  define url4 where "url4 = (if take 2 url3 = ''//'' then snd (splitnetloc url3) else url3)"
  have safe2: "\<And>c. c \<in> set url2 \<Longrightarrow> \<not> unsafe_url_byte c" by (simp add: url2_def)
  have sub3: "set url3 \<subseteq> set url2"
    using after_first_subset [of "CHR '':''" url2] by (auto simp: url3_def)
  have sub_nl: "set nl \<subseteq> set url3" and sub4: "set url4 \<subseteq> set url3"
    and nd: "\<And>c. c \<in> set nl \<Longrightarrow> \<not> netloc_delim c"
    using set_takeWhileD [of _ "\<lambda>c. \<not> netloc_delim c" "drop 2 url3"]
      set_dropWhileD [of _ "\<lambda>c. \<not> netloc_delim c" "drop 2 url3"]
      set_drop_subset [of 2 url3]
    by (auto simp: nl_def url4_def splitnetloc_def)
  have main: "brackets_ok L nl \<and> split_rest L sch nl url4 = Inr r"
    using assms
    by (auto simp: urlsplit_def Let_def url2_def sch_def url3_def nl_def url4_def brackets_ok_Nil
        split: if_splits prod.splits)
  note sr = split_rest_props [of L sch nl url4 r]
  show "scheme r = [] \<or> good_scheme (scheme r)"
    using main sr(1) good_scheme_lower [of url2] by (auto simp: sch_def)
  show "good_netloc L (netloc r)"
    using main sr(2,3) nd sub_nl sub3 safe2 by (auto simp: good_netloc_def list_all_iff)
  show "list_all path_char (path r)"
    using main sr(4,5,6) sub4 sub3 safe2
    unfolding list_all_iff path_char_def by blast
qed

lemma last_segment_subset: "set (last_segment u) \<subseteq> set u"
  unfolding last_segment_def using set_takeWhileD [of _ _ "rev u"] by auto

lemma splitparams_subset: "set (fst (splitparams u)) \<subseteq> set u"
  using set_take_subset [of "length u - length (last_segment u)" u]
    before_first_subset [of "CHR '';''" "last_segment u"] last_segment_subset [of u]
    before_first_subset [of "CHR '';''" u]
  by (auto simp: splitparams_def)

lemma urlparse_props:
  assumes "urlparse L s = Inr r"
  shows "scheme r = [] \<or> good_scheme (scheme r)" "good_netloc L (netloc r)"
    "list_all path_char (path r)"
proof -
  obtain r0 where r0: "urlsplit L s = Inr r0"
    and r: "r = r0\<lparr>params := []\<rparr> \<or>
            r = r0\<lparr>path := fst (splitparams (path r0)), params := snd (splitparams (path r0))\<rparr>"
    using assms by (auto simp: urlparse_def split: sum.splits if_splits prod.splits)
  note p = urlsplit_props [OF r0]
  show "scheme r = [] \<or> good_scheme (scheme r)" using r p(1) by auto
  show "good_netloc L (netloc r)" using r p(2) by auto
  show "list_all path_char (path r)"
    using r p(3) splitparams_subset [of "path r0"] by (auto simp: list_all_iff)
qed

subsection \<open>The normaliser in closed form\<close>

text \<open>The non-empty segments of a parsed path, the scheme and the network
  location with their defaults, and the path that the normaliser returns; with
  them \<open>normalize_eq\<close> below writes the normaliser without its local variables.\<close>

definition url_segments :: "string \<Rightarrow> string list" where
  "url_segments p = filter (\<lambda>s. s \<noteq> []) (split_on CHR ''/'' (if p \<noteq> [] then p else ''/''))"

definition scheme_or_default :: "parse_result \<Rightarrow> string" where
  "scheme_or_default r = (if scheme r \<noteq> [] then scheme r else ''https'')"

definition netloc_or_default :: "parse_result \<Rightarrow> string" where
  "netloc_or_default r = (if netloc r \<noteq> [] then netloc r else ''habr.com'')"

definition canonical_path :: "string \<Rightarrow> string" where
  "canonical_path p = CHR ''/'' # slashed (norm_segs (url_segments p))"

lemma segs_ok_url_segments: "segs_ok (url_segments p)"
  using split_on_elem [of _ "CHR ''/''"] by (auto simp: url_segments_def segs_ok_def list_all_iff)

lemma url_segments_chars: "s \<in> set (url_segments p) \<Longrightarrow> c \<in> set s \<Longrightarrow> c \<in> set p"
proof -
  assume a: "s \<in> set (url_segments p)" and c: "c \<in> set s"
  then have "s \<in> set (split_on CHR ''/'' (if p \<noteq> [] then p else ''/''))"
    by (simp add: url_segments_def)
  from split_on_elem [OF this] c have "c \<noteq> CHR ''/''" "c \<in> set (if p \<noteq> [] then p else ''/'')"
    by auto
  then show ?thesis by (auto split: if_splits)
qed

lemma normalize_eq:
  "normalize_company_articles_url L raw =
     (if raw = [] then Inl ValueError
      else case urlparse L (strip raw) of
             Inl e \<Rightarrow> Inl e
           | Inr r \<Rightarrow> Inr (scheme_or_default r @ ''://'' @ netloc_or_default r
                             @ canonical_path (path r)))"
proof (cases "raw = []")
  case True
  then show ?thesis by (simp add: normalize_company_articles_url_def)
next
  case False
  show ?thesis
  proof (cases "urlparse L (strip raw)")
    case (Inl e)
    with False show ?thesis by (simp add: normalize_company_articles_url_def)
  next
    case (Inr r)
    have un: "\<And>s n q. s \<noteq> [] \<Longrightarrow> n \<noteq> [] \<Longrightarrow>
        urlunparse \<lparr>scheme = s, netloc = n, path = CHR ''/'' # q, params = [],
                    query = [], fragment = []\<rparr> = s @ ''://'' @ n @ CHR ''/'' # q"
      by (simp add: urlunparse_def urlunsplit_def)
    have s: "scheme_or_default r \<noteq> []" and n: "netloc_or_default r \<noteq> []"
      by (simp_all add: scheme_or_default_def netloc_or_default_def)
    note p = path_of_segs [OF segs_ok_url_segments [of "path r"]]
    show ?thesis
      using False Inr
      unfolding normalize_company_articles_url_def Let_def
      apply (simp only: if_False sum.case)
      apply (fold scheme_or_default_def netloc_or_default_def url_segments_def)
      apply (simp only: p un [OF s n] canonical_path_def)
      done
  qed
qed

lemma good_scheme_https: "good_scheme ''https''"
  by (simp add: good_scheme_def ascii_alpha_def scheme_chars_def ascii_lowercase_def
      ascii_uppercase_def lower_def lower_char_def)

lemma good_netloc_habr: "good_netloc L ''habr.com''"
  by (simp add: good_netloc_def netloc_delim_def unsafe_url_byte_def brackets_ok_def
      checknetloc_def isascii_def)

lemma good_scheme_default:
  "urlparse L s = Inr r \<Longrightarrow> good_scheme (scheme_or_default r)"
  using urlparse_props(1) [of L s r] good_scheme_https by (auto simp: scheme_or_default_def)

lemma good_netloc_default:
  "urlparse L s = Inr r \<Longrightarrow> good_netloc L (netloc_or_default r) \<and> netloc_or_default r \<noteq> []"
  using urlparse_props(2) [of L s r] good_netloc_habr by (auto simp: netloc_or_default_def)

lemma slashed_last: "last (CHR ''/'' # slashed segs) = CHR ''/''"
  by (induction segs rule: rev_induct) (auto simp: slashed_def)

lemma slashed_set: "set (slashed segs) = (if segs = [] then {} else insert CHR ''/'' (\<Union>(set ` set segs)))"
  by (induction segs) (auto simp: slashed_def)

lemma norm_segs_chars:
  "s \<in> set (norm_segs segs) \<Longrightarrow> s \<in> set segs \<or> s = ''articles''"
  by (auto simp: norm_segs_def dest: in_set_takeD split: if_splits)

lemma good_path_canonical:
  assumes "list_all path_char p"
  shows "good_path (canonical_path p)"
proof -
  have "path_char c" if "c \<in> set (slashed (norm_segs (url_segments p)))" for c
  proof -
    from that consider "c = CHR ''/''"
      | s where "s \<in> set (norm_segs (url_segments p))" "c \<in> set s"
      by (auto simp: slashed_set split: if_splits)
    then show ?thesis
    proof cases
      case 1
      then show ?thesis by (simp add: path_char_def unsafe_url_byte_def)
    next
      case 2
      then consider "s \<in> set (url_segments p)" | "s = ''articles''"
        using norm_segs_chars by blast
      then show ?thesis
      proof cases
        case 1
        then show ?thesis using 2 url_segments_chars assms by (auto simp: list_all_iff)
      next
        case 2
        then show ?thesis using \<open>c \<in> set s\<close> by (auto simp: path_char_def unsafe_url_byte_def)
      qed
    qed
  qed
  moreover have "path_char CHR ''/''" by (simp add: path_char_def unsafe_url_byte_def)
  ultimately show ?thesis
    unfolding good_path_def canonical_path_def using slashed_last
    by (auto simp: list_all_iff)
qed

lemma url_segments_canonical: "url_segments (canonical_path p) = norm_segs (url_segments p)"
  using filter_split_slashed [OF segs_ok_norm [OF segs_ok_url_segments [of p]]]
  by (simp add: url_segments_def canonical_path_def)

lemma canonical_path_idem: "canonical_path (canonical_path p) = canonical_path p"
  by (simp add: canonical_path_def [of "canonical_path p"] url_segments_canonical norm_segs_idem)
     (simp add: canonical_path_def)

lemma strip_canonical:
  assumes "good_scheme sch" "good_path p"
  shows "strip (sch @ ''://'' @ nl @ p) = sch @ ''://'' @ nl @ p"
proof -
  have "\<not> py_isspace (hd sch)" "sch \<noteq> []"
    using assms(1) ascii_alpha_scheme_char scheme_char_cases(6) by (auto simp: good_scheme_def)
  moreover have "\<not> py_isspace (last p)" "p \<noteq> []"
    using assms(2) by (auto simp: good_path_def py_isspace_def)
  ultimately show ?thesis
    unfolding strip_def by (intro strip_of_id) auto
qed

text \<open>The network location that \<open>urlsplit\<close> cuts out of its argument.\<close>

definition raw_netloc :: "string \<Rightarrow> string" where
  "raw_netloc s =
     (let url2 = filter (\<lambda>c. \<not> unsafe_url_byte c) (lstrip_of c0_control_or_space s);
          url3 = (if has_scheme url2 then after_first CHR '':'' url2 else url2)
      in if take 2 url3 = ''//'' then fst (splitnetloc url3) else [])"

lemma checknetloc_Nil: "checknetloc L []"
  by (simp add: checknetloc_def)

lemma split_rest_Inl_iff: "(\<exists>e. split_rest L sch nl url = Inl e) \<longleftrightarrow> \<not> checknetloc L nl"
  by (auto simp: split_rest_def Let_def split: prod.splits)

lemma urlsplit_Inl_iff:
  "(\<exists>e. urlsplit L s = Inl e) \<longleftrightarrow>
     \<not> (brackets_ok L (raw_netloc s) \<and> checknetloc L (raw_netloc s))"
proof -
  define url2 where
    "url2 = filter (\<lambda>c. \<not> unsafe_url_byte c) (lstrip_of c0_control_or_space s)"
  define sch where "sch = (if has_scheme url2 then lower (before_first CHR '':'' url2) else [])"
  define url3 where "url3 = (if has_scheme url2 then after_first CHR '':'' url2 else url2)"
  have u: "urlsplit L s =
      (if take 2 url3 = ''//''
       then (if brackets_ok L (fst (splitnetloc url3))
             then split_rest L sch (fst (splitnetloc url3)) (snd (splitnetloc url3))
             else Inl ValueError)
       else split_rest L sch [] url3)"
    by (simp add: urlsplit_def Let_def url2_def sch_def url3_def split: prod.splits)
  have n: "raw_netloc s = (if take 2 url3 = ''//'' then fst (splitnetloc url3) else [])"
    by (simp add: raw_netloc_def Let_def url2_def url3_def)
  show ?thesis
    unfolding u n using split_rest_Inl_iff [of L sch]
    by (auto simp: brackets_ok_Nil checknetloc_Nil)
qed

lemma urlparse_Inl_iff:
  "(\<exists>e. urlparse L s = Inl e) \<longleftrightarrow>
     \<not> (brackets_ok L (raw_netloc s) \<and> checknetloc L (raw_netloc s))"
proof -
  have "(\<exists>e. urlparse L s = Inl e) \<longleftrightarrow> (\<exists>e. urlsplit L s = Inl e)"
    by (auto simp: urlparse_def split: sum.splits prod.splits)
  then show ?thesis by (simp add: urlsplit_Inl_iff)
qed

lemma canonical_path_ends: "endswith (canonical_path p) CHR ''/''"
  using slashed_last by (simp add: endswith_def canonical_path_def)

lemma good_scheme_chars: "good_scheme sch \<Longrightarrow> c \<in> set sch \<Longrightarrow> c \<noteq> CHR ''?'' \<and> c \<noteq> CHR ''#''"
proof -
  assume "good_scheme sch" "c \<in> set sch"
  then have "c \<in> set scheme_chars" by (auto simp: good_scheme_def list_all_iff)
  then show ?thesis
    by (auto simp: scheme_chars_def ascii_lowercase_def ascii_uppercase_def)
qed

subsection \<open>The claims on the normaliser\<close>

lemma normalize_fixed:
  assumes "normalize_company_articles_url L x = Inr y"
  shows "normalize_company_articles_url L y = Inr y"
proof -
  obtain r where r: "urlparse L (strip x) = Inr r"
    and y: "y = scheme_or_default r @ ''://'' @ netloc_or_default r @ canonical_path (path r)"
    using assms by (auto simp: normalize_eq split: if_splits sum.splits)
  have gs: "good_scheme (scheme_or_default r)" by (rule good_scheme_default [OF r])
  have gn: "good_netloc L (netloc_or_default r)" and nn: "netloc_or_default r \<noteq> []"
    using good_netloc_default [OF r] by simp_all
  have gp: "good_path (canonical_path (path r))"
    by (rule good_path_canonical [OF urlparse_props(3) [OF r]])
  define R where "R = \<lparr>scheme = scheme_or_default r, netloc = netloc_or_default r,
           path = canonical_path (path r), params = [], query = [], fragment = []\<rparr>"
  have sy: "strip y = y" unfolding y by (rule strip_canonical [OF gs gp])
  have yne: "y \<noteq> []" using gs by (simp add: y good_scheme_def)
  have up: "urlparse L y = Inr R"
    unfolding y R_def by (rule urlparse_canon [OF gs gn gp])
  have "normalize_company_articles_url L y =
        Inr (scheme_or_default R @ ''://'' @ netloc_or_default R @ canonical_path (path R))"
    by (simp add: normalize_eq sy up yne)
  moreover have "scheme_or_default R = scheme_or_default r"
    using gs by (simp add: R_def scheme_or_default_def [of "\<lparr>scheme = _, netloc = _, path = _, params = _, query = _, fragment = _\<rparr>"] good_scheme_def)
  moreover have "netloc_or_default R = netloc_or_default r"
    using nn by (simp add: R_def netloc_or_default_def [of "\<lparr>scheme = _, netloc = _, path = _, params = _, query = _, fragment = _\<rparr>"])
  moreover have "canonical_path (path R) = canonical_path (path r)"
    by (simp add: R_def canonical_path_idem)
  ultimately show ?thesis by (simp add: y)
qed

text \<open>
  Claim C2.  Normalising is idempotent.  Whenever \<open>normalize_company_articles_url\<close>
  returns an address \<open>y\<close> for an input, it returns \<open>y\<close> for \<open>y\<close> again; an address
  that is already normalised is one such \<open>y\<close>.  With the exception carried along,
  normalising twice is normalising once for every input string.
\<close>

theorem normalize_idempotent:
  "(\<forall>y. normalize_company_articles_url L x = Inr y \<longrightarrow>
         normalize_company_articles_url L y = Inr y)
   \<and> (case normalize_company_articles_url L x of
         Inl e \<Rightarrow> Inl e
       | Inr y \<Rightarrow> normalize_company_articles_url L y)
       = normalize_company_articles_url L x"
  using normalize_fixed [of L x]
  by (cases "normalize_company_articles_url L x") simp_all

theorem normalize_idempotent_witness:
  "normalize_company_articles_url example_lib ''habr.com/ru//companies/acme?page=2#top''
     = Inr ''https://habr.com/habr.com/ru/companies/acme/''
   \<and> normalize_company_articles_url example_lib ''https://habr.com/habr.com/ru/companies/acme/''
     = Inr ''https://habr.com/habr.com/ru/companies/acme/''"
proof -
  have h: "normalize_company_articles_url example_lib ''habr.com/ru//companies/acme?page=2#top''
             = Inr ''https://habr.com/habr.com/ru/companies/acme/''"
    by code_simp
  have "normalize_company_articles_url example_lib ''https://habr.com/habr.com/ru/companies/acme/''
          = Inr ''https://habr.com/habr.com/ru/companies/acme/''"
    using h normalize_idempotent [of example_lib "''habr.com/ru//companies/acme?page=2#top''"]
    by blast
  then show ?thesis using h by simp
qed

text \<open>
  Claim C7, as the code has it.  The normaliser raises \<open>ValueError\<close> exactly when
  the raw input is empty or \<open>urlparse\<close> rejects the network location of the
  stripped input (brackets that do not pair, a bracketed host that is no IP
  literal, a host that fails the NFKC test); no request is made in the function.
  For every other input it returns an absolute address: a scheme, \<open>://\<close>, a network
  location and a path that starts and ends with a slash.
\<close>

theorem normalize_fails_iff:
  "(normalize_company_articles_url L raw = Inl ValueError \<longleftrightarrow>
      raw = [] \<or> \<not> brackets_ok L (raw_netloc (strip raw))
               \<or> \<not> checknetloc L (raw_netloc (strip raw)))
   \<and> (normalize_company_articles_url L raw \<noteq> Inl ValueError \<longrightarrow>
      (\<exists>sch nl p. normalize_company_articles_url L raw = Inr (sch @ ''://'' @ nl @ p)
         \<and> sch \<noteq> [] \<and> nl \<noteq> [] \<and> take 1 p = ''/'' \<and> endswith p CHR ''/''))"
proof (cases "raw = []")
  case True
  then show ?thesis by (simp add: normalize_eq)
next
  case False
  show ?thesis
  proof (cases "urlparse L (strip raw)")
    case (Inl e)
    then have "\<not> (brackets_ok L (raw_netloc (strip raw)) \<and> checknetloc L (raw_netloc (strip raw)))"
      using urlparse_Inl_iff [of L "strip raw"] by auto
    moreover have "e = ValueError" by (cases e) simp
    ultimately show ?thesis using False Inl by (auto simp: normalize_eq)
  next
    case (Inr r)
    then have ok: "brackets_ok L (raw_netloc (strip raw)) \<and> checknetloc L (raw_netloc (strip raw))"
      using urlparse_Inl_iff [of L "strip raw"] by auto
    have "scheme_or_default r \<noteq> []" "netloc_or_default r \<noteq> []"
      by (simp_all add: scheme_or_default_def netloc_or_default_def)
    moreover have "take 1 (canonical_path (path r)) = ''/''" by (simp add: canonical_path_def)
    ultimately show ?thesis
      using False Inr ok canonical_path_ends [of "path r"] by (auto simp: normalize_eq)
  qed
qed

theorem normalize_fails_iff_witness:
  "normalize_company_articles_url example_lib ''https://habr.com/ru/companies/acme/'' \<noteq> Inl ValueError
   \<and> (\<exists>sch nl p.
        normalize_company_articles_url example_lib ''https://habr.com/ru/companies/acme/''
          = Inr (sch @ ''://'' @ nl @ p)
        \<and> sch \<noteq> [] \<and> nl \<noteq> [] \<and> take 1 p = ''/'' \<and> endswith p CHR ''/'')"
proof -
  have h: "normalize_company_articles_url example_lib ''https://habr.com/ru/companies/acme/''
             \<noteq> Inl ValueError"
    by code_simp
  show ?thesis
    using h normalize_fails_iff [of example_lib "''https://habr.com/ru/companies/acme/''"]
    by blast
qed

text \<open>The claim as the specification states it fails: the input \<open>https://[\<close> is
  not empty, and the normaliser raises on it.\<close>

theorem normalize_nonempty_raises:
  "''https://['' \<noteq> [] \<and> normalize_company_articles_url example_lib ''https://['' = Inl ValueError"
  by code_simp

text \<open>
  Claim C10.  An address that the normaliser returns is made of the scheme, the
  network location and the path of the parsed input alone (each with its default,
  the path normalised): the parameters, the query and the fragment of the input
  have no part in it, so two inputs that differ in them only are normalised to
  the same address.  The address has no \<open>?\<close> and no \<open>#\<close> in it: parsed again it
  has an empty query, an empty fragment and no parameters, and it is the scheme,
  \<open>://\<close>, the network location and a path that ends with a slash.
\<close>

theorem normalize_drops_query_fragment:
  assumes "normalize_company_articles_url L raw = Inr y"
  shows "CHR ''?'' \<notin> set y \<and> CHR ''#'' \<notin> set y \<and>
         (\<exists>r. urlparse L y = Inr r \<and> query r = [] \<and> fragment r = [] \<and> params r = [] \<and>
               y = scheme r @ ''://'' @ netloc r @ path r \<and> endswith (path r) CHR ''/'') \<and>
         (\<exists>r. urlparse L (strip raw) = Inr r \<and>
               y = scheme_or_default r @ ''://'' @ netloc_or_default r @ canonical_path (path r)) \<and>
         (\<forall>raw' r r'. raw' \<noteq> [] \<and> urlparse L (strip raw) = Inr r \<and> urlparse L (strip raw') = Inr r'
               \<and> scheme r' = scheme r \<and> netloc r' = netloc r \<and> path r' = path r \<longrightarrow>
             normalize_company_articles_url L raw' = Inr y)"
proof -
  obtain r where r: "urlparse L (strip raw) = Inr r"
    and y: "y = scheme_or_default r @ ''://'' @ netloc_or_default r @ canonical_path (path r)"
    using assms by (auto simp: normalize_eq split: if_splits sum.splits)
  have gs: "good_scheme (scheme_or_default r)" by (rule good_scheme_default [OF r])
  have gn: "good_netloc L (netloc_or_default r)"
    using good_netloc_default [OF r] by simp
  have gp: "good_path (canonical_path (path r))"
    by (rule good_path_canonical [OF urlparse_props(3) [OF r]])
  have "c \<noteq> CHR ''?'' \<and> c \<noteq> CHR ''#''" if "c \<in> set y" for c
    using that good_scheme_chars [OF gs, of c] gn gp
    unfolding y good_netloc_def good_path_def path_char_def netloc_delim_def list_all_iff
    by auto
  then have 1: "CHR ''?'' \<notin> set y \<and> CHR ''#'' \<notin> set y" by blast
  have "urlparse L y =
      Inr \<lparr>scheme = scheme_or_default r, netloc = netloc_or_default r,
           path = canonical_path (path r), params = [], query = [], fragment = []\<rparr>"
    unfolding y by (rule urlparse_canon [OF gs gn gp])
  then have 2: "\<exists>r. urlparse L y = Inr r \<and> query r = [] \<and> fragment r = [] \<and> params r = [] \<and>
               y = scheme r @ ''://'' @ netloc r @ path r \<and> endswith (path r) CHR ''/''"
    using y canonical_path_ends [of "path r"] by simp
  have 3: "\<exists>r. urlparse L (strip raw) = Inr r \<and>
               y = scheme_or_default r @ ''://'' @ netloc_or_default r @ canonical_path (path r)"
    using r y by blast
  have 4: "normalize_company_articles_url L raw' = Inr y"
    if "raw' \<noteq> []" "urlparse L (strip raw) = Inr q" "urlparse L (strip raw') = Inr q'"
      "scheme q' = scheme q" "netloc q' = netloc q" "path q' = path q" for raw' q q'
  proof -
    have "q = r" using that(2) r by simp
    then show ?thesis
      using that y
      by (simp add: normalize_eq scheme_or_default_def netloc_or_default_def)
  qed
  show ?thesis using 1 2 3 4 by blast
qed

theorem normalize_drops_query_fragment_witness:
  "normalize_company_articles_url example_lib ''https://habr.com/ru/companies/acme/blog;v=1?page=2#top''
     = Inr ''https://habr.com/ru/companies/acme/articles/''
   \<and> normalize_company_articles_url example_lib ''https://habr.com/ru/companies/acme/blog''
     = Inr ''https://habr.com/ru/companies/acme/articles/''
   \<and> CHR ''?'' \<notin> set ''https://habr.com/ru/companies/acme/articles/''
   \<and> CHR ''#'' \<notin> set ''https://habr.com/ru/companies/acme/articles/''
   \<and> (\<exists>r. urlparse example_lib ''https://habr.com/ru/companies/acme/articles/'' = Inr r
           \<and> query r = [] \<and> fragment r = [] \<and> params r = []
           \<and> ''https://habr.com/ru/companies/acme/articles/'' = scheme r @ ''://'' @ netloc r @ path r
           \<and> endswith (path r) CHR ''/'')"
proof -
  let ?raw = "''https://habr.com/ru/companies/acme/blog;v=1?page=2#top''"
  let ?raw' = "''https://habr.com/ru/companies/acme/blog''"
  let ?r = "\<lparr>scheme = ''https'', netloc = ''habr.com'', path = ''/ru/companies/acme/blog'',
             params = ''v=1'', query = ''page=2'', fragment = ''top''\<rparr>"
  let ?r' = "\<lparr>scheme = ''https'', netloc = ''habr.com'', path = ''/ru/companies/acme/blog'',
              params = [], query = [], fragment = []\<rparr>"
  have h: "normalize_company_articles_url example_lib ?raw
             = Inr ''https://habr.com/ru/companies/acme/articles/''"
    by code_simp
  have p: "urlparse example_lib (strip ?raw) = Inr ?r" by code_simp
  have p': "urlparse example_lib (strip ?raw') = Inr ?r'" by code_simp
  have n: "?raw' \<noteq> []" by simp
  have e: "scheme ?r' = scheme ?r \<and> netloc ?r' = netloc ?r \<and> path ?r' = path ?r" by simp
  note t = normalize_drops_query_fragment [OF h]
  have "normalize_company_articles_url example_lib ?raw'
          = Inr ''https://habr.com/ru/companies/acme/articles/''"
    using t n p p' e by blast
  then show ?thesis using h t by blast
qed

section \<open>Properties of the page fetcher\<close>

text \<open>
  Claim C6, as the code has it.  For every URL the fetch returns \<open>None\<close> when the
  request raises (a network error, a timeout), when the status of the response
  is 400 or more, and when reading the body raises; no exception leaves
  \<open>fetch_html\<close>.  A response with a status below 400 and a readable body is
  returned as its body, whether the status is a 2xx one or not.
\<close>

theorem fetch_html_failures:
  "(\<forall>e. session url = Inl e \<longrightarrow> fetch_html session url = None)
   \<and> (\<forall>resp. session url = Inr resp \<and> 400 \<le> status resp \<longrightarrow> fetch_html session url = None)
   \<and> (\<forall>resp e. session url = Inr resp \<and> body resp = Inl e \<longrightarrow> fetch_html session url = None)
   \<and> (\<forall>resp html. session url = Inr resp \<and> status resp < 400 \<and> body resp = Inr html
         \<longrightarrow> fetch_html session url = Some html)"
  by (auto simp: fetch_html_def fetch_text_def raise_for_status_def split: sum.splits)

theorem fetch_html_failures_witness:
  "example_session (example_url @ ''page2/'') = Inl TimeoutError
   \<and> fetch_html example_session (example_url @ ''page2/'') = None
   \<and> not_found_session example_url = Inr \<lparr>status = 404, body = Inr page_one_html\<rparr>
   \<and> fetch_html not_found_session example_url = None
   \<and> fetch_html example_session example_url = Some page_one_html"
proof -
  have 1: "example_session (example_url @ ''page2/'') = Inl TimeoutError" by code_simp
  have 2: "not_found_session example_url = Inr \<lparr>status = 404, body = Inr page_one_html\<rparr>"
    by (simp add: not_found_session_def)
  have 3: "example_session example_url = Inr \<lparr>status = 200, body = Inr page_one_html\<rparr>"
    by (simp add: example_session_def)
  have "fetch_html example_session (example_url @ ''page2/'') = None"
    using 1 fetch_html_failures [of example_session "example_url @ ''page2/''"] by blast
  moreover have "fetch_html not_found_session example_url = None"
    using 2 fetch_html_failures [of not_found_session example_url] by simp
  moreover have "fetch_html example_session example_url = Some page_one_html"
    using 3 fetch_html_failures [of example_session example_url] by simp
  ultimately show ?thesis using 1 2 by simp
qed

text \<open>The claim as the specification states it fails: a response with status 300
  is not a 2xx response, and the fetch returns its body.\<close>

theorem fetch_html_returns_non_2xx:
  "multiple_choices_session example_url = Inr \<lparr>status = 300, body = Inr page_one_html\<rparr>
   \<and> \<not> (200 \<le> (300::nat) \<and> (300::nat) < 300)
   \<and> fetch_html multiple_choices_session example_url = Some page_one_html"
  by (simp add: multiple_choices_session_def fetch_html_def fetch_text_def raise_for_status_def)

section \<open>Properties of the pagination detector\<close>




section \<open>Properties of the record extractor\<close>

text \<open>The keys of the dictionary that \<open>parse_article_block\<close> returns.\<close>

definition article_keys :: "string list" where
  "article_keys = [''url'', ''title'', ''author'', ''date'', ''time'', ''votes'',
                   ''comments'', ''bookmarks'', ''views'']"

lemma keys_parse_article_block: "map fst (parse_article_block L b) = article_keys"
  by (simp add: parse_article_block_def Let_def article_keys_def split: prod.splits)

lemma find_None: "descendants b = [] \<Longrightarrow> find b name filters = None"
  by (simp add: find_def find_all_def)

lemma all_sentinel:
  "descendants b = [] \<Longrightarrow> parse_article_block L b = map (\<lambda>k. (k, ''N/A'')) article_keys"
  by (simp add: parse_article_block_def date_time_of_def find_None article_keys_def)

text \<open>
  Claim C4.  The dictionary that \<open>parse_article_block\<close> returns has the nine keys
  \<open>url\<close>, \<open>title\<close>, \<open>author\<close>, \<open>date\<close>, \<open>time\<close>, \<open>votes\<close>, \<open>comments\<close>, \<open>bookmarks\<close>,
  \<open>views\<close>, each once, and every key is bound to a string; for a block with
  nothing in it every one of them is bound to the placeholder \<open>N/A\<close>.
\<close>

theorem article_fields_present:
  "map fst (parse_article_block L b) = article_keys
   \<and> distinct (map fst (parse_article_block L b))
   \<and> (\<forall>k \<in> set article_keys. \<exists>v. map_of (parse_article_block L b) k = Some v)
   \<and> (descendants b = [] \<longrightarrow>
        (\<forall>k \<in> set article_keys. map_of (parse_article_block L b) k = Some ''N/A''))"
proof -
  have k: "map fst (parse_article_block L b) = article_keys" by (rule keys_parse_article_block)
  have d: "distinct article_keys" by (simp add: article_keys_def)
  have "\<exists>v. map_of (parse_article_block L b) k = Some v" if "k \<in> set article_keys" for k
    using that k by (metis map_of_eq_None_iff not_Some_eq set_map)
  moreover have "map_of (parse_article_block L b) k = Some ''N/A''"
    if "descendants b = []" "k \<in> set article_keys" for k
    using that unfolding all_sentinel [OF that(1)] by (auto simp: article_keys_def)
  ultimately show ?thesis using k d by auto
qed

theorem article_fields_present_witness:
  "(\<exists>v. map_of (parse_article_block example_lib article_one) ''title'' = Some v)
   \<and> parse_article_block example_lib article_one
       = [(''url'', ''https://habr.com/ru/companies/acme/articles/1/''), (''title'', ''First''),
          (''author'', ''N/A''), (''date'', ''2024-03-05''), (''time'', ''14:30''),
          (''votes'', ''N/A''), (''comments'', ''N/A''), (''bookmarks'', ''N/A''),
          (''views'', ''N/A'')]
   \<and> descendants (Tag ''article'' [] []) = []
   \<and> map_of (parse_article_block example_lib (Tag ''article'' [] [])) ''views'' = Some ''N/A''"
proof -
  have k: "''title'' \<in> set article_keys" "''views'' \<in> set article_keys"
    by (simp_all add: article_keys_def)
  have d: "descendants (Tag ''article'' [] []) = []" by simp
  have "\<exists>v. map_of (parse_article_block example_lib article_one) ''title'' = Some v"
    using k article_fields_present [of example_lib article_one] by blast
  moreover have "map_of (parse_article_block example_lib (Tag ''article'' [] [])) ''views'' = Some ''N/A''"
    using k d article_fields_present [of example_lib "Tag ''article'' [] []"] by blast
  moreover have "parse_article_block example_lib article_one
       = [(''url'', ''https://habr.com/ru/companies/acme/articles/1/''), (''title'', ''First''),
          (''author'', ''N/A''), (''date'', ''2024-03-05''), (''time'', ''14:30''),
          (''votes'', ''N/A''), (''comments'', ''N/A''), (''bookmarks'', ''N/A''),
          (''views'', ''N/A'')]"
    by code_simp
  ultimately show ?thesis using d by simp
qed

subsection \<open>Date and time\<close>

lemma split_on_first:
  "split_on c s = before_first c s # (if c \<in> set s then split_on c (after_first c s) else [])"
proof (induction s)
  case Nil
  then show ?case by (simp add: before_first_def)
next
  case (Cons x s)
  show ?case
  proof (cases "x = c")
    case True
    then show ?thesis by (simp add: before_first_def after_first_def)
  next
    case False
    then show ?thesis
      using Cons by (auto simp: before_first_def after_first_def)
  qed
qed

lemma map_of_date:
  "map_of (parse_article_block L b) ''date'' = Some (fst (date_time_of L b))"
  by (cases "date_time_of L b") (simp add: parse_article_block_def Let_def)

lemma map_of_time:
  "map_of (parse_article_block L b) ''time'' = Some (snd (date_time_of L b))"
  by (cases "date_time_of L b") (simp add: parse_article_block_def Let_def)

lemma take_takeWhile:
  "(\<And>x. x \<in> set (take n xs) \<Longrightarrow> P x) \<Longrightarrow> take n (takeWhile P xs) = take n xs"
proof (induction xs arbitrary: n)
  case Nil
  then show ?case by simp
next
  case (Cons a xs)
  then show ?case by (cases n) auto
qed

lemma date_time_of_parsed:
  assumes "find b ''time'' [] = Some t" "tag_get t ''datetime'' = Some v" "v \<noteq> []"
    and "fromisoformat L (replace_char CHR ''Z'' ''+00:00'' (strip v)) = Some dt"
  shows "date_time_of L b = (strftime_Ymd dt, strftime_HM dt)"
  using assms by (simp add: date_time_of_def Let_def)

lemma date_time_of_fallback:
  assumes "find b ''time'' [] = Some t" "tag_get t ''datetime'' = Some v" "v \<noteq> []"
    and "fromisoformat L (replace_char CHR ''Z'' ''+00:00'' (strip v)) = None"
  shows "date_time_of L b =
           (take 10 (strip v),
            if CHR ''T'' \<in> set (strip v)
            then take 5 (before_first CHR ''T'' (after_first CHR ''T'' (strip v)))
            else ''N/A'')"
proof -
  have "(case split_on CHR ''T'' (strip v) of a # b # rest \<Rightarrow> take 5 b | _ \<Rightarrow> ''N/A'')
        = (if CHR ''T'' \<in> set (strip v)
           then take 5 (before_first CHR ''T'' (after_first CHR ''T'' (strip v)))
           else ''N/A'')"
    by (subst split_on_first, cases "CHR ''T'' \<in> set (strip v)")
       (simp_all add: split_on_first [of _ "after_first CHR ''T'' (strip v)"])
  then show ?thesis using assms by (simp add: date_time_of_def Let_def)
qed

lemma length_str_nat_4: "1000 \<le> n \<Longrightarrow> n \<le> 9999 \<Longrightarrow> length (str_nat n) = 4"
proof -
  assume a: "1000 \<le> n" "n \<le> 9999"
  have 1: "\<not> n < 10" "\<not> n div 10 < 10" "\<not> n div 10 div 10 < 10" "n div 10 div 10 div 10 < 10"
    using a by auto
  show ?thesis
    by (subst str_nat.simps, simp only: 1 if_False, subst str_nat.simps, simp only: 1 if_False,
        subst str_nat.simps, simp only: 1 if_False, subst str_nat.simps, simp only: 1 if_True)
       simp
qed

lemma length_two_digits: "n < 100 \<Longrightarrow> length (two_digits n) = 2"
proof -
  assume a: "n < 100"
  show ?thesis
  proof (cases "n < 10")
    case True
    then show ?thesis by (simp add: two_digits_def)
  next
    case False
    then have "n div 10 < 10" using a by auto
    then show ?thesis using False
      by (simp add: two_digits_def str_nat.simps [of n] str_nat.simps [of "n div 10"])
  qed
qed

lemma strftime_shape:
  assumes "1000 \<le> year dt" "year dt \<le> 9999" "month dt < 100" "day dt < 100"
    "hour dt < 100" "minute dt < 100"
  shows "length (strftime_Ymd dt) = 10 \<and> strftime_Ymd dt ! 4 = CHR ''-'' \<and> strftime_Ymd dt ! 7 = CHR ''-''
       \<and> length (strftime_HM dt) = 5 \<and> strftime_HM dt ! 2 = CHR '':''"
  using length_str_nat_4 [OF assms(1,2)] length_two_digits [OF assms(3)]
    length_two_digits [OF assms(4)] length_two_digits [OF assms(5)] length_two_digits [OF assms(6)]
  by (simp add: strftime_Ymd_def strftime_HM_def nth_append)

text \<open>
  Claim C3, as the code has it.  Let the first \<open>time\<close> element of a block have a
  non-empty \<open>datetime\<close> attribute, and let \<open>iso\<close> be the attribute stripped of
  whitespace.  When \<open>fromisoformat\<close> returns for \<open>iso\<close> with every \<open>Z\<close> replaced by
  \<open>+00:00\<close>, the date is the year, month and day of the result and the time its
  hour and minute, in the forms \<open>YYYY-MM-DD\<close> (for a year from 1000 on) and
  \<open>HH:MM\<close>.  When \<open>fromisoformat\<close> raises, the date is the first ten characters of
  \<open>iso\<close>, and the time is the first five characters of what follows the first
  \<open>T\<close> of \<open>iso\<close>, up to the next \<open>T\<close>; it is the placeholder when \<open>iso\<close> has no \<open>T\<close>.
  That time is the characters 11 to 16 of \<open>iso\<close> when the first \<open>T\<close> is the eleventh
  character and no \<open>T\<close> is among the five after it.
\<close>

theorem date_time_extraction:
  assumes "find b ''time'' [] = Some t" and "tag_get t ''datetime'' = Some v" and "v \<noteq> []"
  shows
    "(\<forall>dt. fromisoformat L (replace_char CHR ''Z'' ''+00:00'' (strip v)) = Some dt \<longrightarrow>
        map_of (parse_article_block L b) ''date'' = Some (strftime_Ymd dt)
      \<and> map_of (parse_article_block L b) ''time'' = Some (strftime_HM dt)
      \<and> (1000 \<le> year dt \<and> year dt \<le> 9999 \<and> month dt \<le> 12 \<and> day dt \<le> 31
           \<and> hour dt < 24 \<and> minute dt < 60 \<longrightarrow>
         length (strftime_Ymd dt) = 10 \<and> strftime_Ymd dt ! 4 = CHR ''-''
         \<and> strftime_Ymd dt ! 7 = CHR ''-''
         \<and> length (strftime_HM dt) = 5 \<and> strftime_HM dt ! 2 = CHR '':''))
   \<and> (fromisoformat L (replace_char CHR ''Z'' ''+00:00'' (strip v)) = None \<longrightarrow>
        map_of (parse_article_block L b) ''date'' = Some (take 10 (strip v))
      \<and> map_of (parse_article_block L b) ''time''
          = Some (if CHR ''T'' \<in> set (strip v)
                  then take 5 (before_first CHR ''T'' (after_first CHR ''T'' (strip v)))
                  else ''N/A'')
      \<and> (\<forall>d rest. strip v = d @ CHR ''T'' # rest \<and> length d = 10 \<and> CHR ''T'' \<notin> set d
                    \<and> CHR ''T'' \<notin> set (take 5 rest) \<longrightarrow>
           map_of (parse_article_block L b) ''time'' = Some (take 5 (drop 11 (strip v)))))"
proof (intro conjI allI impI)
  fix dt
  assume p: "fromisoformat L (replace_char CHR ''Z'' ''+00:00'' (strip v)) = Some dt"
  show "map_of (parse_article_block L b) ''date'' = Some (strftime_Ymd dt)"
    and "map_of (parse_article_block L b) ''time'' = Some (strftime_HM dt)"
    by (simp_all add: map_of_date map_of_time date_time_of_parsed [OF assms p])
  assume w: "1000 \<le> year dt \<and> year dt \<le> 9999 \<and> month dt \<le> 12 \<and> day dt \<le> 31
           \<and> hour dt < 24 \<and> minute dt < 60"
  then have s: "length (strftime_Ymd dt) = 10 \<and> strftime_Ymd dt ! 4 = CHR ''-'' \<and> strftime_Ymd dt ! 7 = CHR ''-''
       \<and> length (strftime_HM dt) = 5 \<and> strftime_HM dt ! 2 = CHR '':''"
    by (intro strftime_shape) auto
  show "length (strftime_Ymd dt) = 10" "strftime_Ymd dt ! 4 = CHR ''-''"
    "strftime_Ymd dt ! 7 = CHR ''-''" "length (strftime_HM dt) = 5" "strftime_HM dt ! 2 = CHR '':''"
    using s by simp_all
next
  assume n: "fromisoformat L (replace_char CHR ''Z'' ''+00:00'' (strip v)) = None"
  note f = date_time_of_fallback [OF assms n]
  show "map_of (parse_article_block L b) ''date'' = Some (take 10 (strip v))"
    by (simp add: map_of_date f)
  show t: "map_of (parse_article_block L b) ''time''
          = Some (if CHR ''T'' \<in> set (strip v)
                  then take 5 (before_first CHR ''T'' (after_first CHR ''T'' (strip v)))
                  else ''N/A'')"
    by (simp add: map_of_time f)
  fix d rest
  assume a: "strip v = d @ CHR ''T'' # rest \<and> length d = 10 \<and> CHR ''T'' \<notin> set d
                    \<and> CHR ''T'' \<notin> set (take 5 rest)"
  then have af: "after_first CHR ''T'' (strip v) = rest"
    by (simp add: after_first_append)
  have "take 5 (takeWhile (\<lambda>x. x \<noteq> CHR ''T'') rest) = take 5 rest"
    using a by (intro take_takeWhile) auto
  then show "map_of (parse_article_block L b) ''time'' = Some (take 5 (drop 11 (strip v)))"
    using a af by (simp add: t before_first_def)
qed

theorem date_time_extraction_witness:
  "map_of (parse_article_block example_lib article_one) ''date'' = Some ''2024-03-05''
   \<and> map_of (parse_article_block example_lib article_one) ''time'' = Some ''14:30''
   \<and> map_of (parse_article_block example_lib
        (Tag ''article'' [] [Tag ''time'' [(''datetime'', ''not-a-date'')] []])) ''date''
       = Some ''not-a-date''
   \<and> map_of (parse_article_block example_lib
        (Tag ''article'' [] [Tag ''time'' [(''datetime'', ''not-a-date'')] []])) ''time''
       = Some ''N/A''
   \<and> map_of (parse_article_block example_lib
        (Tag ''article'' [] [Tag ''time'' [(''datetime'', ''2024-13-45T25:61:00'')] []])) ''time''
       = Some ''25:61''"
proof -
  let ?dt = "\<lparr>year = 2024, month = 3, day = 5, hour = 14, minute = 30\<rparr>"
  let ?t1 = "Tag ''time'' [(''datetime'', ''2024-03-05T14:30:00Z'')] []"
  let ?t2 = "Tag ''time'' [(''datetime'', ''not-a-date'')] []"
  let ?t3 = "Tag ''time'' [(''datetime'', ''2024-13-45T25:61:00'')] []"
  let ?b2 = "Tag ''article'' [] [?t2]"
  let ?b3 = "Tag ''article'' [] [?t3]"
  have f1: "find article_one ''time'' [] = Some ?t1" by code_simp
  have g1: "tag_get ?t1 ''datetime'' = Some ''2024-03-05T14:30:00Z''" by simp
  have n1: "''2024-03-05T14:30:00Z'' \<noteq> []" by simp
  have p1: "fromisoformat example_lib (replace_char CHR ''Z'' ''+00:00'' (strip ''2024-03-05T14:30:00Z''))
              = Some ?dt"
    by code_simp
  have s1: "strftime_Ymd ?dt = ''2024-03-05''" "strftime_HM ?dt = ''14:30''" by code_simp+
  have f2: "find ?b2 ''time'' [] = Some ?t2" by code_simp
  have g2: "tag_get ?t2 ''datetime'' = Some ''not-a-date''" by simp
  have n2: "''not-a-date'' \<noteq> []" by simp
  have p2: "fromisoformat example_lib (replace_char CHR ''Z'' ''+00:00'' (strip ''not-a-date'')) = None"
    by code_simp
  have s2: "take 10 (strip ''not-a-date'') = ''not-a-date''" "CHR ''T'' \<notin> set (strip ''not-a-date'')"
    by code_simp+
  have f3: "find ?b3 ''time'' [] = Some ?t3" by code_simp
  have g3: "tag_get ?t3 ''datetime'' = Some ''2024-13-45T25:61:00''" by simp
  have n3: "''2024-13-45T25:61:00'' \<noteq> []" by simp
  have p3: "fromisoformat example_lib
              (replace_char CHR ''Z'' ''+00:00'' (strip ''2024-13-45T25:61:00'')) = None"
    by code_simp
  have s3: "strip ''2024-13-45T25:61:00'' = ''2024-13-45'' @ CHR ''T'' # ''25:61:00''
            \<and> length ''2024-13-45'' = 10 \<and> CHR ''T'' \<notin> set ''2024-13-45''
            \<and> CHR ''T'' \<notin> set (take 5 ''25:61:00'')"
    by code_simp
  have e3: "take 5 (drop 11 (strip ''2024-13-45T25:61:00'')) = ''25:61''" by code_simp
  note a = date_time_extraction [OF f1 g1 n1, of example_lib]
  note b = date_time_extraction [OF f2 g2 n2, of example_lib]
  note c = date_time_extraction [OF f3 g3 n3, of example_lib]
  have "map_of (parse_article_block example_lib article_one) ''date'' = Some (strftime_Ymd ?dt)"
    and "map_of (parse_article_block example_lib article_one) ''time'' = Some (strftime_HM ?dt)"
    using a p1 by blast+
  moreover have "map_of (parse_article_block example_lib ?b2) ''date''
       = Some (take 10 (strip ''not-a-date''))"
    using b p2 by blast
  moreover have "map_of (parse_article_block example_lib ?b2) ''time''
       = Some (if CHR ''T'' \<in> set (strip ''not-a-date'')
               then take 5 (before_first CHR ''T'' (after_first CHR ''T'' (strip ''not-a-date'')))
               else ''N/A'')"
    using b p2 by blast
  moreover have "map_of (parse_article_block example_lib ?b3) ''time''
       = Some (take 5 (drop 11 (strip ''2024-13-45T25:61:00'')))"
    using c p3 s3 by blast
  ultimately show ?thesis by (simp only: s1 s2 e3 if_False)
qed

text \<open>The claim as the specification states it fails: the attribute \<open>Txx\<close> does not
  parse, and the time of the record is \<open>xx\<close>, which is neither the characters 11
  to 16 of the attribute (there are none) nor the placeholder.\<close>

theorem time_fallback_not_by_position:
  "fromisoformat example_lib (replace_char CHR ''Z'' ''+00:00'' (strip ''Txx'')) = None
   \<and> find article_three ''time'' [] = Some (Tag ''time'' [(''datetime'', ''Txx'')] [])
   \<and> map_of (parse_article_block example_lib article_three) ''time'' = Some ''xx''
   \<and> ''xx'' \<noteq> take 5 (drop 11 ''Txx'') \<and> ''xx'' \<noteq> take 6 (drop 10 ''Txx'')
   \<and> ''xx'' \<noteq> ''N/A''"
  by code_simp

subsection \<open>The blocks of a page\<close>







section \<open>Properties of the scrape orchestrator\<close>

text \<open>
  Claim C5.  When the fetch of the first page fails, the scrape returns no rows,
  and the address of the first page is the only one it has requested.
\<close>

theorem scrape_first_page_fails:
  assumes "fetch_html session url = None"
  shows "scrape_company_articles L session url = Inr ([], [url])"
  using assms by (simp add: scrape_company_articles_def)

theorem scrape_first_page_fails_witness:
  "fetch_html example_session ''https://habr.com/ru/companies/none/articles/'' = None
   \<and> scrape_company_articles example_lib example_session ''https://habr.com/ru/companies/none/articles/''
       = Inr ([], [''https://habr.com/ru/companies/none/articles/''])"
proof -
  have h: "fetch_html example_session ''https://habr.com/ru/companies/none/articles/'' = None"
    by code_simp
  show ?thesis using h scrape_first_page_fails [OF h, of example_lib] by simp
qed

text \<open>The address of page \<open>n\<close> of a listing; the rows of the page behind an
  address, none when its fetch fails; the rows of a list of pages, one after the
  other in the order of the list, up to the first page that the parser rejects;
  and the rows that a scrape returns.\<close>

definition page_url :: "string \<Rightarrow> int \<Rightarrow> string" where
  "page_url articles_url n =
     (if n = 1 then articles_url else articles_url @ ''page'' @ str_int n @ ''/'')"

definition fetched_rows :: "pylib \<Rightarrow> client_session \<Rightarrow> string \<Rightarrow> markup_exn + article list" where
  "fetched_rows L session url =
     (case fetch_html session url of None \<Rightarrow> Inr [] | Some h \<Rightarrow> parse_articles_list L h)"

fun collect_rows :: "(markup_exn + article list) list \<Rightarrow> markup_exn + article list" where
  "collect_rows [] = Inr []"
| "collect_rows (r # rs) =
     (case r of
        Inl e \<Rightarrow> Inl e
      | Inr rows \<Rightarrow> (case collect_rows rs of Inl e \<Rightarrow> Inl e | Inr new_rows \<Rightarrow> Inr (rows @ new_rows)))"

definition returned_rows ::
  "markup_exn + article list \<times> string list \<Rightarrow> markup_exn + article list" where
  "returned_rows result = (case result of Inl e \<Rightarrow> Inl e | Inr (rows, requested) \<Rightarrow> Inr rows)"

lemma find_all_empty: "descendants root = [] \<Longrightarrow> find_all root name filters = []"
  by (simp add: find_all_def)

lemma parse_articles_list_empty:
  assumes "\<exists>doc. BeautifulSoup L [] = Inr doc \<and> descendants doc = []"
  shows "parse_articles_list L [] = Inr []"
  using assms
  by (auto simp: parse_articles_list_def parse_articles_list_with_def find_all_empty)

lemma last_page_empty:
  assumes "\<exists>doc. BeautifulSoup L [] = Inr doc \<and> descendants doc = []"
  shows "parse_pagination_last_page L [] = Inr 1"
  using assms by (auto simp: parse_pagination_last_page_def find_def find_all_empty)

lemma collect_rows_Inr: "collect_rows (map Inr pages) = Inr (concat pages)"
  by (induction pages) simp_all

lemma extend_rows_collect:
  assumes "\<exists>doc. BeautifulSoup L [] = Inr doc \<and> descendants doc = []"
  shows "extend_rows L rows pages =
           (case collect_rows
                   (map (\<lambda>r. case r of None \<Rightarrow> Inr [] | Some h \<Rightarrow> parse_articles_list L h) pages) of
              Inl e \<Rightarrow> Inl e
            | Inr new_rows \<Rightarrow> Inr (rows @ new_rows))"
proof (induction pages arbitrary: rows)
  case Nil
  then show ?case by simp
next
  case (Cons r pages)
  show ?case
  proof (cases r)
    case None
    then show ?thesis using Cons by (simp split: sum.splits)
  next
    case (Some h)
    show ?thesis
    proof (cases "h = []")
      case True
      then show ?thesis
        using Some Cons parse_articles_list_empty [OF assms] by (simp split: sum.splits)
    next
      case False
      then show ?thesis
        using Some Cons by (simp split: sum.splits)
    qed
  qed
qed

lemma last_page_Inr_list:
  "parse_pagination_last_page L html = Inr n \<Longrightarrow> \<exists>rows. parse_articles_list L html = Inr rows"
  by (auto simp: parse_pagination_last_page_def parse_articles_list_def
      parse_articles_list_with_def split: sum.splits)

lemma last_page_Inl_list:
  "parse_pagination_last_page L html = Inl e \<Longrightarrow> parse_articles_list L html = Inl e"
  by (auto simp: parse_pagination_last_page_def parse_articles_list_def
      parse_articles_list_with_def Let_def split: sum.splits option.splits if_splits)

lemma scrape_rows:
  assumes empty: "\<exists>doc. BeautifulSoup L [] = Inr doc \<and> descendants doc = []"
    and first: "fetch_html session url = Some html"
  shows "returned_rows (scrape_company_articles L session url) =
           (case parse_pagination_last_page L html of
              Inl e \<Rightarrow> Inl e
            | Inr n \<Rightarrow> collect_rows (map (\<lambda>k. fetched_rows L session (page_url url k)) (1 # [2..n])))"
proof (cases "html = []")
  case True
  then show ?thesis
    using first last_page_empty [OF empty] parse_articles_list_empty [OF empty]
    by (simp add: scrape_company_articles_def fetched_rows_def page_url_def returned_rows_def)
next
  case False
  have one: "fetched_rows L session (page_url url 1) = parse_articles_list L html"
    using first by (simp add: fetched_rows_def page_url_def)
  show ?thesis
  proof (cases "parse_pagination_last_page L html")
    case (Inl e)
    then show ?thesis
      using first False by (simp add: scrape_company_articles_def returned_rows_def)
  next
    case (Inr n)
    then obtain rows where rows: "parse_articles_list L html = Inr rows"
      using last_page_Inr_list by blast
    define urls where "urls = map (\<lambda>k. url @ ''page'' @ str_int k @ ''/'') [2..n]"
    define pages where "pages = map (fetch_html session) urls"
    have later: "map (\<lambda>r. case r of None \<Rightarrow> Inr [] | Some h \<Rightarrow> parse_articles_list L h) pages
        = map (\<lambda>k. fetched_rows L session (page_url url k)) [2..n]"
      unfolding pages_def urls_def map_map
      by (rule map_cong) (simp_all add: fetched_rows_def page_url_def)
    show ?thesis
    proof (cases "n > 1")
      case True
      have "scrape_company_articles L session url
              = (case extend_rows L rows pages of
                   Inl e \<Rightarrow> Inl e
                 | Inr all_rows \<Rightarrow> Inr (all_rows, url # urls))"
        unfolding urls_def pages_def
        using first \<open>html \<noteq> []\<close> True Inr rows
        by (simp add: scrape_company_articles_def Let_def cong: sum.case_cong)
      then have "returned_rows (scrape_company_articles L session url)
              = (case collect_rows (map (\<lambda>k. fetched_rows L session (page_url url k)) [2..n]) of
                   Inl e \<Rightarrow> Inl e
                 | Inr new_rows \<Rightarrow> Inr (rows @ new_rows))"
        by (simp add: extend_rows_collect [OF empty] later returned_rows_def split: sum.splits)
      then show ?thesis using Inr by (simp add: one rows)
    next
      case False
      then have "[2..n] = []" by simp
      then show ?thesis
        using first \<open>html \<noteq> []\<close> False one Inr rows
        by (simp add: scrape_company_articles_def returned_rows_def)
    qed
  qed
qed

text \<open>
  Claim C1.  Let the parser build an empty document for empty markup, and let
  the fetch of page 1 succeed.  Then the rows the scrape returns are the rows of
  page 1, then of page 2, and so on to the last page that the pagination of page
  1 names, each page in its place and a page whose fetch fails adding nothing and
  raising nothing.  With three pages, the second of which fails, the rows are
  those of page 1 followed by those of page 3.  The only exception that leaves
  the scrape is that of the parser on markup it rejects, at the first such page
  in page order.
\<close>

theorem scrape_concatenates_pages:
  assumes empty: "\<exists>doc. BeautifulSoup L [] = Inr doc \<and> descendants doc = []"
    and first: "fetch_html session url = Some html"
  shows "returned_rows (scrape_company_articles L session url) =
           (case parse_pagination_last_page L html of
              Inl e \<Rightarrow> Inl e
            | Inr n \<Rightarrow> collect_rows (map (\<lambda>k. fetched_rows L session (page_url url k)) (1 # [2..n])))
       \<and> (\<forall>n pages. parse_pagination_last_page L html = Inr n
                \<and> map (\<lambda>k. fetched_rows L session (page_url url k)) (1 # [2..n]) = map Inr pages \<longrightarrow>
              returned_rows (scrape_company_articles L session url) = Inr (concat pages))
       \<and> (\<forall>h3 rows1 rows3. parse_pagination_last_page L html = Inr 3
                \<and> parse_articles_list L html = Inr rows1
                \<and> fetch_html session (page_url url 2) = None
                \<and> fetch_html session (page_url url 3) = Some h3
                \<and> parse_articles_list L h3 = Inr rows3 \<longrightarrow>
              returned_rows (scrape_company_articles L session url) = Inr (rows1 @ rows3))"
proof -
  note r = scrape_rows [OF empty first]
  have one: "fetched_rows L session (page_url url 1) = parse_articles_list L html"
    using first by (simp add: fetched_rows_def page_url_def)
  have a: "returned_rows (scrape_company_articles L session url) = Inr (concat pages)"
    if "parse_pagination_last_page L html = Inr n"
      "map (\<lambda>k. fetched_rows L session (page_url url k)) (1 # [2..n]) = map Inr pages" for n pages
    unfolding r that(1) using that(2) collect_rows_Inr [of pages] by simp
  have b: "returned_rows (scrape_company_articles L session url) = Inr (rows1 @ rows3)"
    if "parse_pagination_last_page L html = Inr 3" "parse_articles_list L html = Inr rows1"
      "fetch_html session (page_url url 2) = None"
      "fetch_html session (page_url url 3) = Some h3" "parse_articles_list L h3 = Inr rows3"
    for h3 rows1 rows3
  proof -
    have "[2..(3::int)] = [2, 3]" by (simp add: upto_rec1)
    then show ?thesis
      unfolding r that(1) using one that(2-5) by (simp add: fetched_rows_def)
  qed
  show ?thesis using r a b by blast
qed

theorem scrape_concatenates_pages_witness:
  "(\<exists>doc. BeautifulSoup example_lib [] = Inr doc \<and> descendants doc = [])
   \<and> fetch_html example_session example_url = Some page_one_html
   \<and> parse_pagination_last_page example_lib page_one_html = Inr 3
   \<and> fetch_html example_session (page_url example_url 2) = None
   \<and> fetch_html example_session (page_url example_url 3) = Some page_three_html
   \<and> returned_rows (scrape_company_articles example_lib example_session example_url)
       = Inr [parse_article_block example_lib article_one, parse_article_block example_lib article_three]"
proof -
  have "BeautifulSoup example_lib [] = Inr (Tag ''[document]'' [] [])
        \<and> descendants (Tag ''[document]'' [] []) = []"
    by code_simp
  then have e: "\<exists>doc. BeautifulSoup example_lib [] = Inr doc \<and> descendants doc = []" by blast
  have f: "fetch_html example_session example_url = Some page_one_html" by code_simp
  have n: "parse_pagination_last_page example_lib page_one_html = Inr 3" by code_simp
  have p2: "fetch_html example_session (page_url example_url 2) = None" by code_simp
  have p3: "fetch_html example_session (page_url example_url 3) = Some page_three_html"
    by code_simp
  have r1: "parse_articles_list example_lib page_one_html
              = Inr [parse_article_block example_lib article_one]"
    by code_simp
  have r3: "parse_articles_list example_lib page_three_html
              = Inr [parse_article_block example_lib article_three]"
    by code_simp
  have "returned_rows (scrape_company_articles example_lib example_session example_url)
          = Inr ([parse_article_block example_lib article_one]
                 @ [parse_article_block example_lib article_three])"
    using n r1 p2 p3 r3 scrape_concatenates_pages [OF e f] by blast
  then show ?thesis using e f n p2 p3 by simp
qed

end
